theory Spec2Isabelle
  imports Main "HOL-Library.Char_ord" "HOL-Library.List_Lexorder" "HOL-Library.Sublist"
begin

section \<open>Errors, JSON files and the file store\<close>

text \<open>
  The pipeline of \<^verbatim>\<open>custom_web_bot\<close> keeps its state in JSON files under a data
  directory. The store below is keyed by the path string the code passes to \<^verbatim>\<open>open\<close>;
  it is typed: URL lists, source-config lists and article records live in separate maps.
  A file is either parsed JSON of the expected shape or \<open>Malformed\<close> (for which
  \<^verbatim>\<open>json.load\<close> raises \<^verbatim>\<open>JSONDecodeError\<close>). Directories are taken to exist, and two
  paths are the same file exactly when they are the same string. An operation that raises
  returns \<open>Inl (e, fs)\<close>: the exception and the store as the writes before it left it.
\<close>

datatype error =
  KeyError | FileNotFoundError | JSONDecodeError | IndexError | TypeError | NameError | LLMError

datatype 'a json = Parsed 'a | Malformed

text \<open>What the key \<^verbatim>\<open>article_cnt\<close> of a config entry may hold: an integer, or a value to
  which Python cannot add an integer (\<^verbatim>\<open>null\<close>, a string). Floating-point counters are
  outside the model.\<close>

datatype json_value = JInt int | JNull | JStr string

text \<open>An entry of the source-config list (\<^verbatim>\<open>url_conf\<close>, \<^verbatim>\<open>di\<close>, \<^verbatim>\<open>entry\<close>): a Python dict,
  each key present or absent.\<close>

record source_conf =
  c_id :: "string option"
  c_article_cnt :: "json_value option"
  c_rss :: "string option"
  c_url :: "string option"
  c_xpath :: "string option"

text \<open>An article record \<^verbatim>\<open>articles/{id}_{index}.json\<close>: a Python dict as well.\<close>

record article =
  a_url :: "string option"
  a_html :: "string option"
  a_path :: "string option"
  a_title :: "string option"
  a_date :: "string option"
  a_summary :: "string option"
  a_keywords :: "string list option"
  a_tags :: "string list option"
  a_subtags :: "string list option"

record store =
  url_files :: "string \<rightharpoonup> string list json"
  config_files :: "string \<rightharpoonup> source_conf list json"
  article_files :: "string \<rightharpoonup> article json"

definition read_urls :: "store \<Rightarrow> string \<Rightarrow> error + string list" where
  "read_urls fs p =
     (case url_files fs p of
        None \<Rightarrow> Inl FileNotFoundError
      | Some Malformed \<Rightarrow> Inl JSONDecodeError
      | Some (Parsed xs) \<Rightarrow> Inr xs)"

definition write_urls :: "string \<Rightarrow> string list \<Rightarrow> store \<Rightarrow> store" where
  "write_urls p xs fs = fs\<lparr>url_files := (url_files fs)(p \<mapsto> Parsed xs)\<rparr>"

definition read_config :: "store \<Rightarrow> string \<Rightarrow> error + source_conf list" where
  "read_config fs p =
     (case config_files fs p of
        None \<Rightarrow> Inl FileNotFoundError
      | Some Malformed \<Rightarrow> Inl JSONDecodeError
      | Some (Parsed es) \<Rightarrow> Inr es)"

definition write_config :: "string \<Rightarrow> source_conf list \<Rightarrow> store \<Rightarrow> store" where
  "write_config p es fs = fs\<lparr>config_files := (config_files fs)(p \<mapsto> Parsed es)\<rparr>"

text \<open>\<^verbatim>\<open>os.path.join(a, b)\<close> on POSIX: an absolute second component replaces the first.\<close>

definition os_path_join :: "string \<Rightarrow> string \<Rightarrow> string" where
  "os_path_join a b =
     (if b \<noteq> [] \<and> hd b = CHR ''/'' then b
      else if a = [] \<or> last a = CHR ''/'' then a @ b
      else a @ ''/'' @ b)"

text \<open>The two per-source files, as \<^verbatim>\<open>merge_files\<close>, \<^verbatim>\<open>CustomScraper\<close> and
  \<^verbatim>\<open>ArticleExtractor\<close> name them: \<^verbatim>\<open>os.path.join(data_dir, f"urls/{id}.json")\<close> and
  \<^verbatim>\<open>os.path.join(data_dir, f"new_urls/{id}.json")\<close>.\<close>

definition urls_path :: "string \<Rightarrow> string \<Rightarrow> string" where
  "urls_path data_dir i = os_path_join data_dir (''urls/'' @ i @ ''.json'')"

definition new_urls_path :: "string \<Rightarrow> string \<Rightarrow> string" where
  "new_urls_path data_dir i = os_path_join data_dir (''new_urls/'' @ i @ ''.json'')"

text \<open>The URL list a path holds, read as \<^verbatim>\<open>[]\<close> when there is no parsed file.\<close>

definition stored_urls :: "store \<Rightarrow> string \<Rightarrow> string list" where
  "stored_urls fs p = (case url_files fs p of Some (Parsed xs) \<Rightarrow> xs | _ \<Rightarrow> [])"

text \<open>\<^verbatim>\<open>url_conf.get("article_cnt", 0)\<close>.\<close>

definition get_article_cnt :: "source_conf \<Rightarrow> json_value" where
  "get_article_cnt conf = (case c_article_cnt conf of None \<Rightarrow> JInt 0 | Some v \<Rightarrow> v)"

text \<open>\<^verbatim>\<open>v + n\<close> for an integer \<open>n\<close>: \<^verbatim>\<open>None + n\<close> and \<^verbatim>\<open>"7" + n\<close> raise \<^verbatim>\<open>TypeError\<close>.\<close>

definition add_int :: "json_value \<Rightarrow> int \<Rightarrow> error + int" where
  "add_int v n = (case v of JInt k \<Rightarrow> Inr (k + n) | _ \<Rightarrow> Inl TypeError)"

text \<open>
  \<^verbatim>\<open>list(s)\<close> of a Python set \<open>s\<close> lists its elements once each, in an order the language
  leaves open. The functions that call it take the listing as a parameter \<open>enum\<close>, and
  the theorems hold for every listing that satisfies \<open>set_listing\<close>.
\<close>

definition set_listing :: "(string set \<Rightarrow> string list) \<Rightarrow> bool" where
  "set_listing enum \<longleftrightarrow> (\<forall>S. finite S \<longrightarrow> set (enum S) = S \<and> distinct (enum S))"

section \<open>URL differencer, RSS path: \<^verbatim>\<open>url_extractor.RssHandler\<close>\<close>

record RssHandler =
  rss_url :: string
  rss_id :: string
  rss_article_cnt :: json_value
  output_path :: string
  new_url_path :: string
  new_urls :: "string list"

text \<open>\<^verbatim>\<open>RssHandler.__init__\<close>: reads the config entry, computes the two paths and creates
  either file, holding \<^verbatim>\<open>[]\<close>, when it does not exist.\<close>

definition RssHandler_init ::
  "source_conf \<Rightarrow> string \<Rightarrow> store \<Rightarrow> error \<times> store + RssHandler \<times> store" where
  "RssHandler_init url_conf data_dir fs =
     (case c_rss url_conf of
        None \<Rightarrow> Inl (KeyError, fs)
      | Some r \<Rightarrow>
         (case c_id url_conf of
            None \<Rightarrow> Inl (KeyError, fs)
          | Some i \<Rightarrow>
             (let out = os_path_join (os_path_join data_dir ''urls'') (i @ ''.json'');
                  new = os_path_join (os_path_join data_dir ''new_urls'') (i @ ''.json'');
                  fs1 = (if url_files fs out = None then write_urls out [] fs else fs);
                  fs2 = (if url_files fs1 new = None then write_urls new [] fs1 else fs1)
              in Inr (\<lparr>rss_url = r, rss_id = i, rss_article_cnt = get_article_cnt url_conf,
                        output_path = out, new_url_path = new, new_urls = []\<rparr>, fs2))))"

text \<open>The body of \<^verbatim>\<open>RssHandler.update_file\<close> after its first line; \<open>urls\<close> is the candidate
  list, the value of \<^verbatim>\<open>self.extract_urls()\<close>.\<close>

definition update_file ::
  "(string set \<Rightarrow> string list) \<Rightarrow> string list \<Rightarrow> RssHandler \<times> store
     \<Rightarrow> error \<times> store + RssHandler \<times> store" where
  "update_file enum urls hs =
     (case hs of (h, fs) \<Rightarrow>
       if urls = [] then Inr (h, fs)
       else
         (case read_urls fs (output_path h) of
            Inl e \<Rightarrow> Inl (e, fs)
          | Inr existing_urls \<Rightarrow>
             (let nu = sorted_list_of_set (set urls - set existing_urls);
                  all_urls = enum (set urls \<union> set existing_urls);
                  fs1 = write_urls (new_url_path h) nu fs;
                  fs2 = write_urls (output_path h) all_urls fs1
              in Inr (h\<lparr>new_urls := nu\<rparr>, fs2))))"



text \<open>One reconcile of an RSS source as \<^verbatim>\<open>runner.py\<close> performs it, for a given candidate
  list: a fresh handler, then \<^verbatim>\<open>update_file\<close>.\<close>

definition reconcile_rss ::
  "(string set \<Rightarrow> string list) \<Rightarrow> source_conf \<Rightarrow> string \<Rightarrow> string list \<Rightarrow> store
     \<Rightarrow> error \<times> store + RssHandler \<times> store" where
  "reconcile_rss enum conf data_dir urls fs =
     (case RssHandler_init conf data_dir fs of
        Inl e \<Rightarrow> Inl e
      | Inr hs \<Rightarrow> update_file enum urls hs)"

section \<open>URL differencer, XPath path: \<^verbatim>\<open>xpathsraper.CustomScraper\<close>\<close>

record CustomScraper =
  sc_id :: string
  sc_xpath :: string
  sc_old_url_path :: string
  sc_new_url_path :: string
  sc_url :: string

definition CustomScraper_init :: "source_conf \<Rightarrow> string \<Rightarrow> error + CustomScraper" where
  "CustomScraper_init config dir_path =
     (case c_id config of
        None \<Rightarrow> Inl KeyError
      | Some i \<Rightarrow>
         (case c_xpath config of
            None \<Rightarrow> Inl KeyError
          | Some x \<Rightarrow>
             (case c_url config of
                None \<Rightarrow> Inl KeyError
              | Some u \<Rightarrow>
                 Inr \<lparr>sc_id = i, sc_xpath = x,
                      sc_old_url_path = urls_path dir_path i,
                      sc_new_url_path = new_urls_path dir_path i,
                      sc_url = u\<rparr>)))"

text \<open>\<^verbatim>\<open>CustomScraper.process\<close>; \<open>fetched\<close> is what \<^verbatim>\<open>fetch_urls\<close> returned. A malformed
  cumulative file is read as the empty set (the \<^verbatim>\<open>except json.JSONDecodeError\<close>).\<close>

definition process ::
  "(string set \<Rightarrow> string list) \<Rightarrow> string list \<Rightarrow> CustomScraper \<Rightarrow> store
     \<Rightarrow> error \<times> store + store" where
  "process enum fetched sc fs =
     (let fs1 = (if url_files fs (sc_old_url_path sc) = None
                 then write_urls (sc_old_url_path sc) [] fs else fs)
      in case url_files fs1 (sc_old_url_path sc) of
           None \<Rightarrow> Inl (FileNotFoundError, fs1)
         | Some f \<Rightarrow>
            (let old_urls = (case f of Parsed xs \<Rightarrow> set xs | Malformed \<Rightarrow> {});
                 cur_urls = set fetched;
                 nu = cur_urls - old_urls
             in Inr (write_urls (sc_new_url_path sc) (enum nu) fs1)))"

section \<open>Merge-and-commit: \<^verbatim>\<open>dbmanager.merge_files\<close>\<close>

text \<open>The loop over \<^verbatim>\<open>map_data\<close>: the first entry whose id matches gets its
  \<^verbatim>\<open>article_cnt\<close> (0 when absent) raised by \<open>n\<close>; then \<^verbatim>\<open>break\<close>. The addition raises
  \<^verbatim>\<open>TypeError\<close> when the entry's counter is not an integer.\<close>

fun bump_article_cnt :: "string \<Rightarrow> int \<Rightarrow> source_conf list \<Rightarrow> error + source_conf list" where
  "bump_article_cnt i n [] = Inr []"
| "bump_article_cnt i n (entry # es) =
     (if c_id entry = Some i
      then (case add_int (get_article_cnt entry) n of
              Inl e \<Rightarrow> Inl e
            | Inr k \<Rightarrow> Inr (entry\<lparr>c_article_cnt := Some (JInt k)\<rparr> # es))
      else (case bump_article_cnt i n es of
              Inl e \<Rightarrow> Inl e
            | Inr es' \<Rightarrow> Inr (entry # es')))"

definition merge_files ::
  "(string set \<Rightarrow> string list) \<Rightarrow> source_conf \<Rightarrow> string \<Rightarrow> string \<Rightarrow> store
     \<Rightarrow> error \<times> store + store" where
  "merge_files enum di data_dir map_path fs =
     (case c_id di of
        None \<Rightarrow> Inl (KeyError, fs)
      | Some i \<Rightarrow>
         (let new_url_path = new_urls_path data_dir i;
              old_url_path = urls_path data_dir i;
              fs1 = (if url_files fs new_url_path = None then write_urls new_url_path [] fs else fs)
          in case read_urls fs1 new_url_path of
               Inl e \<Rightarrow> Inl (e, fs1)
             | Inr nus \<Rightarrow>
                (let fs2 = (if url_files fs1 old_url_path = None
                            then write_urls old_url_path [] fs1 else fs1)
                 in case read_urls fs2 old_url_path of
                      Inl e \<Rightarrow> Inl (e, fs2)
                    | Inr old_urls \<Rightarrow>
                       (let all_urls = enum (set nus \<union> set old_urls);
                            fs3 = write_urls new_url_path all_urls fs2;
                            new_url_cnt = int (length nus)
                        in if new_url_cnt > 0
                           then (case read_config fs3 map_path of
                                   Inl e \<Rightarrow> Inl (e, fs3)
                                 | Inr map_data \<Rightarrow>
                                    (case bump_article_cnt i new_url_cnt map_data of
                                       Inl e \<Rightarrow> Inl (e, fs3)
                                     | Inr map_data' \<Rightarrow>
                                        Inr (write_config map_path map_data' fs3)))
                           else Inr fs3))))"

text \<open>What every reader of the config list sees as the source's counter: the integer
  \<^verbatim>\<open>article_cnt\<close> of the first entry with the source's id, 0 when the key is absent.\<close>

definition persisted_cnt :: "store \<Rightarrow> string \<Rightarrow> string \<Rightarrow> int option" where
  "persisted_cnt fs map_path i =
     (case config_files fs map_path of
        Some (Parsed es) \<Rightarrow>
          (case find (\<lambda>e. c_id e = Some i) es of
             None \<Rightarrow> None
           | Some e \<Rightarrow> (case get_article_cnt e of JInt k \<Rightarrow> Some k | _ \<Rightarrow> None))
      | _ \<Rightarrow> None)"

text \<open>The store an operation leaves behind, whether it returned or raised.\<close>

definition result_store :: "error \<times> store + store \<Rightarrow> store" where
  "result_store r = (case r of Inl (e, fs) \<Rightarrow> fs | Inr fs \<Rightarrow> fs)"

definition final_store :: "error \<times> store + 'h \<times> store \<Rightarrow> store" where
  "final_store r = (case r of Inl (e, fs) \<Rightarrow> fs | Inr (h, fs) \<Rightarrow> fs)"

section \<open>Sequential id allocator: \<^verbatim>\<open>article_extractor.ArticleExtractor\<close>\<close>

text \<open>\<^verbatim>\<open>str(i)\<close> for a Python int and \<^verbatim>\<open>s.zfill(width)\<close>: zeros are inserted after a leading
  sign, and a string already \<open>width\<close> long or longer is returned as it is.\<close>

definition digit_char :: "nat \<Rightarrow> char" where
  "digit_char n = ''0123456789'' ! (n mod 10)"

function str_nat :: "nat \<Rightarrow> string" where
  "str_nat n = (if n < 10 then [digit_char n] else str_nat (n div 10) @ [digit_char (n mod 10)])"
  by pat_completeness auto
termination
  by (relation "measure id") auto

definition str_int :: "int \<Rightarrow> string" where
  "str_int i = (if i < 0 then CHR ''-'' # str_nat (nat (- i)) else str_nat (nat i))"

definition zfill :: "nat \<Rightarrow> string \<Rightarrow> string" where
  "zfill width s =
     (if width \<le> length s then s
      else (case s of
              [] \<Rightarrow> replicate width CHR ''0''
            | c # cs \<Rightarrow>
               if c = CHR ''+'' \<or> c = CHR ''-''
               then c # replicate (width - length s) CHR ''0'' @ cs
               else replicate (width - length s) CHR ''0'' @ s))"

text \<open>\<^verbatim>\<open>f"{self.id}_{str(i).zfill(4)}"\<close>, the composite key of an article.\<close>

definition fileid :: "string \<Rightarrow> int \<Rightarrow> string" where
  "fileid ident i = ident @ ''_'' @ zfill 4 (str_int i)"

record ArticleExtractor =
  ax_date :: string
  ax_id :: string
  ax_article_cnt :: json_value
  ax_new_url_path :: string
  ax_article_dir :: string
  ax_new_urls :: "string list"
  ax_map :: "string \<rightharpoonup> int"

text \<open>The loop of \<^verbatim>\<open>map_urls\<close>: \<^verbatim>\<open>for i, url in enumerate(self.new_urls, start=1)\<close>;
  \<open>i\<close> is the running value of the enumeration.\<close>

fun map_urls_loop :: "int \<Rightarrow> nat \<Rightarrow> string list \<Rightarrow> (string \<rightharpoonup> int) \<Rightarrow> (string \<rightharpoonup> int)" where
  "map_urls_loop cnt i [] m = m"
| "map_urls_loop cnt i (url # us) m = map_urls_loop cnt (Suc i) us (m(url \<mapsto> cnt + int i))"

text \<open>\<^verbatim>\<open>map_urls\<close>: on a counter that is not an integer the first addition raises
  \<^verbatim>\<open>TypeError\<close> (in the loop, or in \<^verbatim>\<open>self.article_cnt += len(self.new_urls)\<close> when the
  list is empty), before the map is touched.\<close>

definition map_urls :: "ArticleExtractor \<Rightarrow> error + ArticleExtractor" where
  "map_urls ax =
     (case ax_article_cnt ax of
        JInt k \<Rightarrow>
          Inr (ax\<lparr>ax_map := map_urls_loop k 1 (ax_new_urls ax) (ax_map ax),
                  ax_article_cnt := JInt (k + int (length (ax_new_urls ax)))\<rparr>)
      | _ \<Rightarrow> Inl TypeError)"

text \<open>\<^verbatim>\<open>ArticleExtractor.__init__\<close>; \<open>today\<close> is \<^verbatim>\<open>time.strftime("%Y-%m-%d")\<close>. The delta file is
  read when it exists; the counter comes from \<^verbatim>\<open>url_conf.get("article_cnt", 0)\<close>.\<close>

definition ArticleExtractor_init ::
  "string \<Rightarrow> source_conf \<Rightarrow> string \<Rightarrow> store \<Rightarrow> error \<times> store + ArticleExtractor \<times> store" where
  "ArticleExtractor_init today url_conf data_dir fs =
     (case c_id url_conf of
        None \<Rightarrow> Inl (KeyError, fs)
      | Some i \<Rightarrow>
         (let p = new_urls_path data_dir i;
              ax = \<lparr>ax_date = today, ax_id = i, ax_article_cnt = get_article_cnt url_conf,
                    ax_new_url_path = p, ax_article_dir = os_path_join data_dir ''articles'',
                    ax_new_urls = [], ax_map = Map.empty\<rparr>
          in case url_files fs p of
               None \<Rightarrow>
                 (case map_urls ax of Inl e \<Rightarrow> Inl (e, fs) | Inr ax' \<Rightarrow> Inr (ax', fs))
             | Some Malformed \<Rightarrow> Inl (JSONDecodeError, fs)
             | Some (Parsed us) \<Rightarrow>
                 (case map_urls (ax\<lparr>ax_new_urls := us\<rparr>) of
                    Inl e \<Rightarrow> Inl (e, fs)
                  | Inr ax' \<Rightarrow> Inr (ax', fs))))"

definition write_article :: "string \<Rightarrow> article \<Rightarrow> store \<Rightarrow> store" where
  "write_article p a fs = fs\<lparr>article_files := (article_files fs)(p \<mapsto> Parsed a)\<rparr>"

definition save_json :: "ArticleExtractor \<Rightarrow> string \<Rightarrow> string \<Rightarrow> string \<Rightarrow> store \<Rightarrow> store" where
  "save_json ax url html fid fs =
     write_article (os_path_join (ax_article_dir ax) (fid @ ''.json''))
       \<lparr>a_url = Some url, a_html = Some html, a_path = Some fid, a_title = Some [],
        a_date = Some (ax_date ax), a_summary = None, a_keywords = None, a_tags = None,
        a_subtags = None\<rparr> fs"

text \<open>One result of the crawler (an external collaborator).\<close>

record crawl_result =
  r_url :: string
  r_markdown :: "string option"
  r_html :: "string option"
  r_success :: bool

text \<open>\<^verbatim>\<open>result.markdown or result.html or ""\<close>: \<^verbatim>\<open>None\<close> and \<^verbatim>\<open>""\<close> are both falsy.\<close>

definition content_of :: "crawl_result \<Rightarrow> string" where
  "content_of result =
     (case r_markdown result of
        Some (c # cs) \<Rightarrow> c # cs
      | _ \<Rightarrow> (case r_html result of Some (c # cs) \<Rightarrow> c # cs | _ \<Rightarrow> []))"

text \<open>\<^verbatim>\<open>process_result\<close>: a URL that is not in the map raises \<^verbatim>\<open>KeyError\<close>, which the
  \<^verbatim>\<open>except\<close> prints; nothing is written then.\<close>

definition process_result :: "ArticleExtractor \<Rightarrow> crawl_result \<Rightarrow> store \<Rightarrow> store" where
  "process_result ax result fs =
     (case ax_map ax (r_url result) of
        None \<Rightarrow> fs
      | Some i \<Rightarrow> save_json ax (r_url result) (content_of result) (fileid (ax_id ax) i) fs)"


section \<open>Summarize stage: \<^verbatim>\<open>summariser\<close>\<close>

text \<open>
  Text is a list of characters, read as code points below 256. \<^verbatim>\<open>s.find(sub)\<close> is the
  lowest index at which \<open>sub\<close> occurs, \<open>None\<close> standing for Python's \<open>-1\<close>;
  \<^verbatim>\<open>s.find(sub, start)\<close> searches \<^verbatim>\<open>s[start:]\<close> and finds nothing when \<open>start\<close> is past the end.
\<close>

fun str_find :: "string \<Rightarrow> string \<Rightarrow> nat option" where
  "str_find sub [] = (if sub = [] then Some 0 else None)"
| "str_find sub (c # cs) =
     (if prefix sub (c # cs) then Some 0 else map_option Suc (str_find sub cs))"

definition str_find_from :: "string \<Rightarrow> string \<Rightarrow> nat \<Rightarrow> nat option" where
  "str_find_from sub s start =
     (if length s < start then None
      else map_option (\<lambda>k. start + k) (str_find sub (drop start s)))"

text \<open>\<^verbatim>\<open>c.isspace()\<close> on the code points below 256, and \<^verbatim>\<open>s.strip()\<close>.\<close>

definition is_space :: "char \<Rightarrow> bool" where
  "is_space c \<longleftrightarrow> of_char c \<in> {9, 10, 11, 12, 13, 28, 29, 30, 31, 32, 133, 160 :: nat}"

definition py_strip :: "string \<Rightarrow> string" where
  "py_strip s = rev (dropWhile is_space (rev (dropWhile is_space s)))"

definition extract_between_backticks :: "string \<Rightarrow> string" where
  "extract_between_backticks text =
     (case str_find ''```'' text of
        None \<Rightarrow> []
      | Some start \<Rightarrow>
         (case str_find_from ''```'' text (start + 3) of
            None \<Rightarrow> []
          | Some end \<Rightarrow> py_strip (take (end - (start + 3)) (drop (start + 3) text))))"

text \<open>\<^verbatim>\<open>s.replace(old, new)\<close> for a non-empty \<open>old\<close>: the occurrences are replaced from the left,
  without overlap. (On an empty \<open>old\<close> the model returns \<open>s\<close>; the code never passes one.)\<close>

function str_replace :: "string \<Rightarrow> string \<Rightarrow> string \<Rightarrow> string" where
  "str_replace old new s =
     (if old \<noteq> [] \<and> prefix old s then new @ str_replace old new (drop (length old) s)
      else (case s of [] \<Rightarrow> [] | c # cs \<Rightarrow> c # str_replace old new cs))"
  by pat_completeness auto
termination
  by (relation "measure (\<lambda>(old, new, s). length s)") (auto simp: prefix_def)


record Summariser =
  sm_prompt_template :: string
  sm_new_filepaths :: "string list"

definition generate_summary_message :: "Summariser \<Rightarrow> string \<Rightarrow> string" where
  "generate_summary_message sm article_text =
     str_replace ''(article)'' article_text (sm_prompt_template sm)"

text \<open>What \<^verbatim>\<open>json.loads\<close> of the fenced block gives: a dict with the three keys present or
  absent. The language model (\<open>invoke\<close>: the text of its answer, or an exception) and the
  JSON parser (\<open>loads\<close>) are external and are parameters of the stage.\<close>

record llm_result =
  res_summary :: "string option"
  res_title :: "string option"
  res_keywords :: "string list option"

definition llm_call ::
  "(string \<Rightarrow> error + string) \<Rightarrow> (string \<Rightarrow> error + llm_result) \<Rightarrow> Summariser \<Rightarrow> string
     \<Rightarrow> error + llm_result" where
  "llm_call invoke loads sm article_text =
     (case invoke (generate_summary_message sm article_text) of
        Inl e \<Rightarrow> Inl e
      | Inr chat_response \<Rightarrow>
         (let s1 = extract_between_backticks chat_response
          in case s1 of
               [] \<Rightarrow> Inl IndexError
             | c # cs \<Rightarrow> if c = CHR ''j'' then loads (drop 4 s1) else loads s1))"

text \<open>The state of the stage: the store and the prompts sent to the language model so far.
  \<^verbatim>\<open>process_article\<close> catches a missing file and every exception of the call and of the
  write; a malformed record file is the one exception that escapes it.\<close>

type_synonym summ_state = "store \<times> string list"

definition process_article ::
  "(string \<Rightarrow> error + string) \<Rightarrow> (string \<Rightarrow> error + llm_result) \<Rightarrow> Summariser \<Rightarrow> string
     \<Rightarrow> summ_state \<Rightarrow> error \<times> summ_state + summ_state" where
  "process_article invoke loads sm filename st =
     (case st of (fs, sent) \<Rightarrow>
       (case article_files fs filename of
          None \<Rightarrow> Inr (fs, sent)
        | Some Malformed \<Rightarrow> Inl (JSONDecodeError, (fs, sent))
        | Some (Parsed data) \<Rightarrow>
           (let html_text = (case a_html data of None \<Rightarrow> [] | Some t \<Rightarrow> t)
            in if py_strip html_text = [] then Inr (fs, sent)
               else if (case a_summary data of None \<Rightarrow> [] | Some t \<Rightarrow> t) \<noteq> [] then Inr (fs, sent)
               else
                 (let sent' = sent @ [generate_summary_message sm html_text]
                  in case llm_call invoke loads sm html_text of
                       Inl e \<Rightarrow> Inr (fs, sent')
                     | Inr result \<Rightarrow>
                        Inr (write_article filename
                               (data\<lparr>a_summary := Some (case res_summary result of None \<Rightarrow> [] | Some t \<Rightarrow> t),
                                     a_title := Some (case res_title result of None \<Rightarrow> [] | Some t \<Rightarrow> t),
                                     a_keywords := Some (case res_keywords result of None \<Rightarrow> [] | Some ks \<Rightarrow> ks),
                                     a_html := None\<rparr>) fs,
                             sent')))))"

text \<open>\<^verbatim>\<open>process_all_articles\<close>: \<^verbatim>\<open>asyncio.gather\<close> starts one task for each file. A task
  never suspends (the model is invoked synchronously), so the tasks run one after the
  other in the order of the file list, and every task runs: a task that raises does not
  stop the later ones. The first exception raised is the one that reaches the caller.\<close>

fun process_all ::
  "(string \<Rightarrow> error + string) \<Rightarrow> (string \<Rightarrow> error + llm_result) \<Rightarrow> Summariser \<Rightarrow> string list
     \<Rightarrow> summ_state \<Rightarrow> error \<times> summ_state + summ_state" where
  "process_all invoke loads sm [] st = Inr st"
| "process_all invoke loads sm (f # fs) st =
     (case process_article invoke loads sm f st of
        Inl (e, st') \<Rightarrow>
          (case process_all invoke loads sm fs st' of
             Inl (e', st'') \<Rightarrow> Inl (e, st'')
           | Inr st'' \<Rightarrow> Inl (e, st''))
      | Inr st' \<Rightarrow> process_all invoke loads sm fs st')"

definition process_all_articles ::
  "(string \<Rightarrow> error + string) \<Rightarrow> (string \<Rightarrow> error + llm_result) \<Rightarrow> Summariser
     \<Rightarrow> summ_state \<Rightarrow> error \<times> summ_state + summ_state" where
  "process_all_articles invoke loads sm st = process_all invoke loads sm (sm_new_filepaths sm) st"

section \<open>Relational store: \<^verbatim>\<open>dbmanager.DBHandler.delete_duplicates\<close>\<close>

text \<open>A row of \<^verbatim>\<open>articles(id INTEGER PRIMARY KEY AUTOINCREMENT, html TEXT, pos TEXT NOT NULL)\<close>;
  \<open>html\<close> may be \<^verbatim>\<open>NULL\<close>. The table is the list of its rows.\<close>

record article_row =
  row_id :: int
  row_html :: "string option"
  row_pos :: string

text \<open>\<^verbatim>\<open>GROUP BY pos, html\<close>: rows are grouped by the pair, \<^verbatim>\<open>NULL\<close>s together.\<close>

definition group_key :: "article_row \<Rightarrow> string \<times> string option" where
  "group_key r = (row_pos r, row_html r)"

text \<open>\<^verbatim>\<open>SELECT MIN(id) FROM articles GROUP BY pos, html\<close>: one id for each group.\<close>

definition min_ids :: "article_row list \<Rightarrow> int list" where
  "min_ids rows =
     map (\<lambda>k. Min (set (map row_id (filter (\<lambda>r. group_key r = k) rows))))
         (remdups (map group_key rows))"

text \<open>\<^verbatim>\<open>DELETE FROM articles WHERE id NOT IN (...)\<close>: the rows whose id is selected stay.\<close>

definition delete_duplicates :: "article_row list \<Rightarrow> article_row list" where
  "delete_duplicates rows = filter (\<lambda>r. row_id r \<in> set (min_ids rows)) rows"

section \<open>Example inputs\<close>

text \<open>The source \<^verbatim>\<open>techcrunch\<close> of the specification's scenarios: seven articles committed,
  two URLs seen so far, two URLs in the delta file.\<close>

definition techcrunch_conf :: source_conf where
  "techcrunch_conf =
     \<lparr>c_id = Some ''techcrunch'', c_article_cnt = Some (JInt 7),
      c_rss = Some ''https://techcrunch.com/feed/'', c_url = Some ''https://techcrunch.com/'',
      c_xpath = Some ''//a''\<rparr>"

definition techcrunch_store :: store where
  "techcrunch_store =
     \<lparr>url_files =
        [''data_new/urls/techcrunch.json'' \<mapsto> Parsed [''a.com/1'', ''a.com/2''],
         ''data_new/new_urls/techcrunch.json'' \<mapsto> Parsed [''a.com/3'', ''a.com/4'']],
      config_files = [''sample_mapping.json'' \<mapsto> Parsed [techcrunch_conf]],
      article_files = Map.empty\<rparr>"

definition techcrunch_handler :: RssHandler where
  "techcrunch_handler =
     \<lparr>rss_url = ''https://techcrunch.com/feed/'', rss_id = ''techcrunch'', rss_article_cnt = JInt 7,
      output_path = ''data_new/urls/techcrunch.json'',
      new_url_path = ''data_new/new_urls/techcrunch.json'', new_urls = []\<rparr>"

definition techcrunch_scraper :: CustomScraper where
  "techcrunch_scraper =
     \<lparr>sc_id = ''techcrunch'', sc_xpath = ''//a'',
      sc_old_url_path = ''data_new/urls/techcrunch.json'',
      sc_new_url_path = ''data_new/new_urls/techcrunch.json'',
      sc_url = ''https://techcrunch.com/''\<rparr>"

text \<open>A data directory before the first run, and a config entry without \<^verbatim>\<open>article_cnt\<close>.\<close>

definition empty_store :: store where
  "empty_store = \<lparr>url_files = Map.empty, config_files = Map.empty, article_files = Map.empty\<rparr>"


text \<open>A result of the crawler for the second URL of the delta.\<close>

definition techcrunch_result :: crawl_result where
  "techcrunch_result =
     \<lparr>r_url = ''a.com/4'', r_markdown = Some ''# Fourth'', r_html = Some ''<h1>Fourth</h1>'',
      r_success = True\<rparr>"


text \<open>Two article records, one summarised and one only fetched; a summariser over them; a
  language model whose answer has no fenced block, and a parser that rejects everything.\<close>

definition summarised_article :: article where
  "summarised_article =
     \<lparr>a_url = Some ''a.com/3'', a_html = Some ''Body of the third article'',
      a_path = Some ''techcrunch_0008'', a_title = Some ''Third'', a_date = Some ''2025-01-01'',
      a_summary = Some ''A short summary'', a_keywords = Some [''startup''], a_tags = None,
      a_subtags = None\<rparr>"

definition fetched_article :: article where
  "fetched_article =
     \<lparr>a_url = Some ''a.com/4'', a_html = Some ''Body of the fourth article'',
      a_path = Some ''techcrunch_0009'', a_title = Some [], a_date = Some ''2025-01-01'',
      a_summary = None, a_keywords = None, a_tags = None, a_subtags = None\<rparr>"

definition article_store :: store where
  "article_store =
     \<lparr>url_files = Map.empty, config_files = Map.empty,
      article_files =
        [''data_new/articles/techcrunch_0008.json'' \<mapsto> Parsed summarised_article,
         ''data_new/articles/techcrunch_0009.json'' \<mapsto> Parsed fetched_article]\<rparr>"

definition techcrunch_summariser :: Summariser where
  "techcrunch_summariser =
     \<lparr>sm_prompt_template = ''Summarise: (article)'',
      sm_new_filepaths = [''data_new/articles/techcrunch_0008.json'',
                          ''data_new/articles/techcrunch_0009.json'']\<rparr>"

definition unfenced_llm :: "string \<Rightarrow> error + string" where
  "unfenced_llm prompt = Inr ''Sorry, no JSON.''"

definition no_json :: "string \<Rightarrow> error + llm_result" where
  "no_json s = Inl JSONDecodeError"

text \<open>An \<^verbatim>\<open>articles\<close> table in which the first record was inserted twice.\<close>

definition example_articles :: "article_row list" where
  "example_articles =
     [\<lparr>row_id = 1, row_html = Some ''a.com/3'', row_pos = ''techcrunch_0008''\<rparr>,
      \<lparr>row_id = 2, row_html = Some ''a.com/3'', row_pos = ''techcrunch_0008''\<rparr>,
      \<lparr>row_id = 3, row_html = Some ''a.com/4'', row_pos = ''techcrunch_0009''\<rparr>,
      \<lparr>row_id = 4, row_html = None, row_pos = ''techcrunch_0009''\<rparr>]"

text \<open>Two runs of the XPath pipeline over \<^verbatim>\<open>techcrunch\<close> that discover the same three URLs:
  the differencer, the commit, and the differencer again.\<close>

definition xpath_run_1 :: store where
  "xpath_run_1 =
     result_store (process sorted_list_of_set [''a.com/2'', ''a.com/3'', ''a.com/4'']
                     techcrunch_scraper techcrunch_store)"

definition xpath_commit_1 :: store where
  "xpath_commit_1 =
     result_store (merge_files sorted_list_of_set techcrunch_conf ''data_new''
                     ''sample_mapping.json'' xpath_run_1)"

definition xpath_run_2 :: store where
  "xpath_run_2 =
     result_store (process sorted_list_of_set [''a.com/2'', ''a.com/3'', ''a.com/4'']
                     techcrunch_scraper xpath_commit_1)"


section \<open>Shared lemmas\<close>

declare str_nat.simps [simp del]

declare str_replace.simps [simp del]

lemma urls_path_neq_new_urls_path: "urls_path d i \<noteq> new_urls_path d i"
  by (simp add: urls_path_def new_urls_path_def os_path_join_def)

lemma set_listingD: "set_listing enum \<Longrightarrow> finite S \<Longrightarrow> set (enum S) = S"
  by (simp add: set_listing_def)

lemma set_listing_sorted: "set_listing sorted_list_of_set"
  by (simp add: set_listing_def)

lemma techcrunch_paths:
  "urls_path ''data_new'' ''techcrunch'' = ''data_new/urls/techcrunch.json''"
  "new_urls_path ''data_new'' ''techcrunch'' = ''data_new/new_urls/techcrunch.json''"
  by (simp_all add: urls_path_def new_urls_path_def os_path_join_def)

lemma techcrunch_scraper_init:
  "CustomScraper_init techcrunch_conf ''data_new'' = Inr techcrunch_scraper"
  by (simp add: CustomScraper_init_def techcrunch_conf_def techcrunch_scraper_def techcrunch_paths)

lemma techcrunch_handler_init:
  "RssHandler_init techcrunch_conf ''data_new'' techcrunch_store = Inr (techcrunch_handler, techcrunch_store)"
  by (simp add: RssHandler_init_def techcrunch_conf_def techcrunch_handler_def techcrunch_store_def
        os_path_join_def get_article_cnt_def Let_def)

lemma update_file_nonempty:
  assumes "set_listing enum" "urls \<noteq> []" "url_files fs (output_path h) = Some (Parsed U)"
  shows "update_file enum urls (h, fs) =
           Inr (h\<lparr>new_urls := sorted_list_of_set (set urls - set U)\<rparr>,
                write_urls (output_path h) (enum (set urls \<union> set U))
                  (write_urls (new_url_path h) (sorted_list_of_set (set urls - set U)) fs))"
  using assms
  by (simp add: update_file_def read_urls_def Let_def)

lemma process_delta:
  assumes "url_files fs (sc_old_url_path sc) = Some (Parsed U)"
  shows "process enum fetched sc fs = Inr (write_urls (sc_new_url_path sc) (enum (set fetched - set U)) fs)"
  using assms
  by (simp add: process_def Let_def)

lemma RssHandler_init_files:
  assumes "RssHandler_init conf d fs = Inr (h, fs0)"
  shows "url_files fs0 (output_path h) \<noteq> None" "url_files fs0 (new_url_path h) \<noteq> None"
    "new_urls h = []"
  using assms
  by (auto simp: RssHandler_init_def write_urls_def Let_def split: option.splits if_splits)

lemma RssHandler_init_again:
  assumes "RssHandler_init conf d fs = Inr (h, fs0)"
    and "url_files gs (output_path h) \<noteq> None" "url_files gs (new_url_path h) \<noteq> None"
  shows "RssHandler_init conf d gs = Inr (h, gs)"
  using assms
  by (auto simp: RssHandler_init_def write_urls_def Let_def split: option.splits if_splits)

lemma bump_article_cnt_found:
  assumes "find (\<lambda>e. c_id e = Some i) es = Some e" and "get_article_cnt e = JInt k"
  shows "\<exists>es'. bump_article_cnt i n es = Inr es'
           \<and> find (\<lambda>e. c_id e = Some i) es' = Some (e\<lparr>c_article_cnt := Some (JInt (k + n))\<rparr>)"
  using assms
  by (induction es) (auto simp: add_int_def split: if_splits)

lemma get_article_cnt_update [simp]:
  "get_article_cnt (e\<lparr>c_article_cnt := Some v\<rparr>) = v"
  by (simp add: get_article_cnt_def)


lemma merge_files_result:
  assumes "c_id di = Some i"
    and "url_files fs (new_urls_path d i) \<noteq> Some Malformed"
    and "url_files fs (urls_path d i) \<noteq> Some Malformed"
  shows "merge_files enum di d mp fs =
     (let nus = stored_urls fs (new_urls_path d i);
          olds = stored_urls fs (urls_path d i);
          fs2 = (if url_files fs (urls_path d i) = None then write_urls (urls_path d i) [] fs else fs);
          fs3 = write_urls (new_urls_path d i) (enum (set nus \<union> set olds)) fs2
      in if nus = [] then Inr fs3
         else (case read_config fs mp of
                 Inl e \<Rightarrow> Inl (e, fs3)
               | Inr map_data \<Rightarrow>
                  (case bump_article_cnt i (int (length nus)) map_data of
                     Inl e \<Rightarrow> Inl (e, fs3)
                   | Inr map_data' \<Rightarrow> Inr (write_config mp map_data' fs3))))"
proof -
  have neq: "urls_path d i \<noteq> new_urls_path d i" by (rule urls_path_neq_new_urls_path)
  show ?thesis
  proof (cases "url_files fs (new_urls_path d i)")
    case None
    then show ?thesis
      using assms neq
      by (cases "url_files fs (urls_path d i)")
         (auto simp: merge_files_def read_urls_def write_urls_def stored_urls_def Let_def read_config_def
               split: json.splits option.splits sum.splits)
  next
    case (Some a)
    then show ?thesis
      using assms neq
      by (cases "url_files fs (urls_path d i)")
         (auto simp: merge_files_def read_urls_def write_urls_def stored_urls_def Let_def read_config_def
               split: json.splits option.splits sum.splits)
  qed
qed


lemma map_urls_loop_other:
  "x \<notin> set us \<Longrightarrow> map_urls_loop cnt i us m x = m x"
  by (induction us arbitrary: i m) auto

lemma map_urls_loop_nth:
  "distinct us \<Longrightarrow> j < length us \<Longrightarrow> map_urls_loop cnt i us m (us ! j) = Some (cnt + int (i + j))"
proof (induction us arbitrary: i m j)
  case Nil
  then show ?case by simp
next
  case (Cons u us)
  show ?case
  proof (cases j)
    case 0
    then show ?thesis using Cons.prems by (simp add: map_urls_loop_other)
  next
    case (Suc j')
    then show ?thesis using Cons.prems Cons.IH[of j' "Suc i"] by simp
  qed
qed

lemma str_nat_small: "n < 10 \<Longrightarrow> str_nat n = [digit_char n]"
  by (subst str_nat.simps) simp

lemma str_nat_big: "10 \<le> n \<Longrightarrow> str_nat n = str_nat (n div 10) @ [digit_char n]"
  by (subst str_nat.simps) (simp add: digit_char_def)

lemma lt10_cases:
  "(r::nat) < 10 \<Longrightarrow> r = 0 \<or> r = 1 \<or> r = 2 \<or> r = 3 \<or> r = 4 \<or> r = 5 \<or> r = 6 \<or> r = 7 \<or> r = 8 \<or> r = 9"
  by arith

lemma digit_char_nosign: "digit_char m \<noteq> CHR ''+'' \<and> digit_char m \<noteq> CHR ''-''"
proof -
  have "m mod 10 = 0 \<or> m mod 10 = 1 \<or> m mod 10 = 2 \<or> m mod 10 = 3 \<or> m mod 10 = 4
      \<or> m mod 10 = 5 \<or> m mod 10 = 6 \<or> m mod 10 = 7 \<or> m mod 10 = 8 \<or> m mod 10 = 9"
    using lt10_cases[of "m mod 10"] by simp
  then show ?thesis
    unfolding digit_char_def by (elim disjE) simp_all
qed

lemma replicate_small:
  "replicate 3 c = [c, c, c]" "replicate 2 c = [c, c]" "replicate 1 c = [c]"
  by (simp_all add: numeral_3_eq_3 numeral_2_eq_2)

lemma zfill_4_short:
  assumes "a \<noteq> CHR ''+''" "a \<noteq> CHR ''-''"
  shows "zfill 4 [a] = [CHR ''0'', CHR ''0'', CHR ''0'', a]"
    and "zfill 4 [a, b] = [CHR ''0'', CHR ''0'', a, b]"
    and "zfill 4 [a, b, c] = [CHR ''0'', a, b, c]"
    and "zfill 4 [a, b, c, d] = [a, b, c, d]"
  using assms by (simp_all add: zfill_def replicate_small)

lemma digit_char_0: "digit_char 0 = CHR ''0''"
  by (simp add: digit_char_def)

lemma str_nat_2: "10 \<le> n \<Longrightarrow> n < 100 \<Longrightarrow> str_nat n = [digit_char (n div 10), digit_char n]"
  by (simp add: str_nat_big str_nat_small)

lemma str_nat_3:
  assumes "100 \<le> n" "n < 1000"
  shows "str_nat n = [digit_char (n div 100), digit_char (n div 10), digit_char n]"
proof -
  have "10 \<le> n div 10" "n div 10 < 100" using assms by auto
  then have "str_nat (n div 10) = [digit_char (n div 10 div 10), digit_char (n div 10)]"
    by (rule str_nat_2)
  moreover have "n div 10 div 10 = n div 100" by (simp add: div_mult2_eq[symmetric])
  ultimately show ?thesis using assms by (simp add: str_nat_big)
qed

lemma str_nat_4:
  assumes "1000 \<le> n" "n < 10000"
  shows "str_nat n = [digit_char (n div 1000), digit_char (n div 100), digit_char (n div 10), digit_char n]"
proof -
  have "100 \<le> n div 10" "n div 10 < 1000" using assms by auto
  then have "str_nat (n div 10) = [digit_char (n div 10 div 100), digit_char (n div 10 div 10), digit_char (n div 10)]"
    by (rule str_nat_3)
  moreover have "n div 10 div 10 = n div 100" "n div 10 div 100 = n div 1000"
    by (simp_all add: div_mult2_eq[symmetric])
  ultimately show ?thesis using assms by (simp add: str_nat_big)
qed

lemma zfill_4_digits:
  assumes "0 \<le> k" "k < 10000"
  shows "zfill 4 (str_int k) =
           [digit_char (nat k div 1000), digit_char (nat k div 100), digit_char (nat k div 10),
            digit_char (nat k)]"
proof -
  let ?n = "nat k"
  have n: "?n < 10000" using assms by simp
  consider "?n < 10" | "10 \<le> ?n" "?n < 100" | "100 \<le> ?n" "?n < 1000" | "1000 \<le> ?n"
    by linarith
  then have "zfill 4 (str_nat ?n) =
           [digit_char (?n div 1000), digit_char (?n div 100), digit_char (?n div 10), digit_char ?n]"
  proof cases
    case 1
    then show ?thesis
      by (simp add: str_nat_small zfill_4_short digit_char_nosign digit_char_0)
  next
    case 2
    then show ?thesis
      by (simp add: str_nat_2 zfill_4_short digit_char_nosign digit_char_0)
  next
    case 3
    then show ?thesis
      by (simp add: str_nat_3 zfill_4_short digit_char_nosign digit_char_0)
  next
    case 4
    then show ?thesis
      using n by (simp add: str_nat_4 zfill_4_short digit_char_nosign)
  qed
  then show ?thesis using assms by (simp add: str_int_def)
qed

lemma ArticleExtractor_init_parsed:
  assumes "c_id conf = Some i"
    and "url_files fs (new_urls_path d i) = Some (Parsed us)"
    and "get_article_cnt conf = JInt k"
  shows "ArticleExtractor_init today conf d fs =
           Inr (\<lparr>ax_date = today, ax_id = i,
                 ax_article_cnt = JInt (k + int (length us)),
                 ax_new_url_path = new_urls_path d i,
                 ax_article_dir = os_path_join d ''articles'',
                 ax_new_urls = us, ax_map = map_urls_loop k 1 us Map.empty\<rparr>, fs)"
  using assms
  by (simp add: ArticleExtractor_init_def map_urls_def Let_def)

lemma str_find_Some:
  "str_find sub s = Some k \<Longrightarrow> k \<le> length s \<and> take (length sub) (drop k s) = sub
      \<and> (\<forall>k' < k. take (length sub) (drop k' s) \<noteq> sub)"
proof (induction s arbitrary: k)
  case Nil
  then show ?case by (auto split: if_splits)
next
  case (Cons c cs)
  show ?case
  proof (cases "prefix sub (c # cs)")
    case True
    then have "k = 0" using Cons.prems by simp
    then show ?thesis using True by (auto simp: prefix_def)
  next
    case False
    then obtain k0 where k0: "str_find sub cs = Some k0" "k = Suc k0"
      using Cons.prems by auto
    note ih = Cons.IH[OF k0(1)]
    have no0: "take (length sub) (c # cs) \<noteq> sub"
      using False by (metis take_is_prefix)
    show ?thesis
    proof (intro conjI allI impI)
      show "k \<le> length (c # cs)" using ih k0 by simp
      show "take (length sub) (drop k (c # cs)) = sub" using ih k0 by simp
      fix k' assume "k' < k"
      then show "take (length sub) (drop k' (c # cs)) \<noteq> sub"
        using ih k0 no0 by (cases k') auto
    qed
  qed
qed

lemma str_find_None:
  "str_find sub s = None \<Longrightarrow> k \<le> length s \<Longrightarrow> take (length sub) (drop k s) \<noteq> sub"
proof (induction s arbitrary: k)
  case Nil
  then show ?case by (auto split: if_splits)
next
  case (Cons c cs)
  have np: "\<not> prefix sub (c # cs)" and n: "str_find sub cs = None"
    using Cons.prems(1) by (auto split: if_splits)
  show ?case
  proof (cases k)
    case 0
    then show ?thesis using np by (metis drop0 take_is_prefix)
  next
    case (Suc k')
    then show ?thesis using Cons.IH[OF n, of k'] Cons.prems(2) by simp
  qed
qed

lemma take_eq_imp_split:
  "take (length m) (drop k s) = m \<Longrightarrow> s = take k s @ m @ drop (k + length m) s"
  by (metis add.commute append_take_drop_id drop_drop)

lemma str_find_first:
  assumes "s = a @ m @ rest"
    and "\<forall>k<length a. take (length m) (drop k s) \<noteq> m"
  shows "str_find m s = Some (length a)"
proof (cases "str_find m s")
  case None
  have "take (length m) (drop (length a) s) = m" using assms(1) by simp
  moreover have "length a \<le> length s" using assms(1) by simp
  ultimately show ?thesis using str_find_None[OF None] by blast
next
  case (Some k)
  note f = str_find_Some[OF Some]
  have occ: "take (length m) (drop (length a) s) = m" using assms(1) by simp
  have "\<not> length a < k" using f occ by blast
  moreover have "\<not> k < length a" using f assms(2) by blast
  ultimately show ?thesis using Some by simp
qed

lemma extract_between_backticks_fenced:
  assumes "text = a @ ''```'' @ b @ ''```'' @ c"
    and "\<forall>k<length a. take 3 (drop k text) \<noteq> ''```''"
    and "\<forall>k<length b. take 3 (drop k (b @ ''```'' @ c)) \<noteq> ''```''"
  shows "extract_between_backticks text = py_strip b"
proof -
  have len: "length ''```'' = 3" by simp
  have 1: "str_find ''```'' text = Some (length a)"
    by (rule str_find_first[where rest = "b @ ''```'' @ c"], rule assms(1), unfold len, rule assms(2))
  have d: "drop (length a + 3) text = b @ ''```'' @ c"
    using assms(1) by simp
  have 2: "str_find ''```'' (b @ ''```'' @ c) = Some (length b)"
    by (rule str_find_first[where rest = c], rule refl, unfold len, rule assms(3))
  have 3: "str_find_from ''```'' text (length a + 3) = Some (length a + 3 + length b)"
    using d 2 assms(1) by (simp add: str_find_from_def)
  show ?thesis
    using 1 3 d by (simp add: extract_between_backticks_def)
qed

lemma extract_between_backticks_unfenced:
  assumes "\<nexists>a b c. text = a @ ''```'' @ b @ ''```'' @ c"
  shows "extract_between_backticks text = []"
proof (rule ccontr)
  assume ne: "extract_between_backticks text \<noteq> []"
  have len: "length ''```'' = 3" by simp
  obtain i where i: "str_find ''```'' text = Some i"
    using ne by (auto simp: extract_between_backticks_def split: option.splits)
  then obtain j where j: "str_find_from ''```'' text (i + 3) = Some j"
    using ne by (auto simp: extract_between_backticks_def split: option.splits)
  then obtain k where k: "str_find ''```'' (drop (i + 3) text) = Some k"
    by (auto simp: str_find_from_def split: if_splits)
  have "take 3 (drop i text) = ''```''"
    using str_find_Some[OF i, unfolded len] by blast
  then have t: "text = take i text @ ''```'' @ drop (i + 3) text"
    by (rule take_eq_imp_split[of "''```''" i "text", unfolded len])
  have "take 3 (drop k (drop (i + 3) text)) = ''```''"
    using str_find_Some[OF k, unfolded len] by blast
  then have "drop (i + 3) text
               = take k (drop (i + 3) text) @ ''```'' @ drop (k + 3) (drop (i + 3) text)"
    by (rule take_eq_imp_split[of "''```''" k "drop (i + 3) text", unfolded len])
  then have "text = take i text @ ''```'' @ take k (drop (i + 3) text) @ ''```''
                      @ drop (k + 3) (drop (i + 3) text)"
    using t by metis
  then show False using assms by blast
qed

lemma min_ids_set:
  "set (min_ids rows) = (\<lambda>r. Min (row_id ` {q \<in> set rows. group_key q = group_key r})) ` set rows"
proof -
  have "set (map row_id (filter (\<lambda>r. group_key r = k) rows))
          = row_id ` {q \<in> set rows. group_key q = k}" for k
    by simp
  then show ?thesis
    by (simp add: min_ids_def image_image)
qed

lemma group_min_in:
  assumes "r \<in> set rows"
  shows "\<exists>q \<in> set rows. group_key q = group_key r
           \<and> row_id q = Min (row_id ` {q \<in> set rows. group_key q = group_key r})"
proof -
  let ?G = "row_id ` {q \<in> set rows. group_key q = group_key r}"
  have "finite ?G" "?G \<noteq> {}" using assms by auto
  then have "Min ?G \<in> ?G" by (rule Min_in)
  then show ?thesis by auto
qed

lemma delete_duplicates_iff:
  assumes "distinct (map row_id rows)" and "r \<in> set rows"
  shows "r \<in> set (delete_duplicates rows)
           \<longleftrightarrow> (\<forall>q \<in> set rows. group_key q = group_key r \<longrightarrow> row_id r \<le> row_id q)"
proof
  assume "r \<in> set (delete_duplicates rows)"
  then have "row_id r \<in> set (min_ids rows)" by (simp add: delete_duplicates_def)
  then obtain r' where r': "r' \<in> set rows"
    "row_id r = Min (row_id ` {q \<in> set rows. group_key q = group_key r'})"
    unfolding min_ids_set by auto
  obtain q where q: "q \<in> set rows" "group_key q = group_key r'"
    "row_id q = Min (row_id ` {q \<in> set rows. group_key q = group_key r'})"
    using group_min_in[OF r'(1)] by blast
  have "row_id q = row_id r" using q r' by simp
  then have "q = r"
    using assms q(1) by (meson distinct_map inj_onD)
  then have g: "group_key r' = group_key r" using q by simp
  show "\<forall>q \<in> set rows. group_key q = group_key r \<longrightarrow> row_id r \<le> row_id q"
  proof (intro ballI impI)
    fix p assume "p \<in> set rows" "group_key p = group_key r"
    then have "row_id p \<in> row_id ` {q \<in> set rows. group_key q = group_key r'}"
      using g by auto
    then show "row_id r \<le> row_id p"
      unfolding r'(2) by (intro Min_le) auto
  qed
next
  assume a: "\<forall>q \<in> set rows. group_key q = group_key r \<longrightarrow> row_id r \<le> row_id q"
  let ?G = "row_id ` {q \<in> set rows. group_key q = group_key r}"
  have "row_id r \<in> ?G" using assms(2) by auto
  moreover have "\<forall>x \<in> ?G. row_id r \<le> x" using a by auto
  ultimately have "Min ?G = row_id r"
    by (intro Min_eqI) auto
  then have "row_id r \<in> set (min_ids rows)"
    unfolding min_ids_set using assms(2) by (metis (no_types, lifting) image_eqI)
  then show "r \<in> set (delete_duplicates rows)"
    using assms(2) by (simp add: delete_duplicates_def)
qed





lemma map_urls_loop_dom:
  "dom (map_urls_loop cnt i us m) = dom m \<union> set us"
  by (induction us arbitrary: i m) auto

lemma techcrunch_extractor_init:
  "ArticleExtractor_init ''2025-01-01'' techcrunch_conf ''data_new'' techcrunch_store
     = Inr (\<lparr>ax_date = ''2025-01-01'', ax_id = ''techcrunch'',
              ax_article_cnt = JInt (7 + int (length [''a.com/3'', ''a.com/4''])),
              ax_new_url_path = new_urls_path ''data_new'' ''techcrunch'',
              ax_article_dir = os_path_join ''data_new'' ''articles'',
              ax_new_urls = [''a.com/3'', ''a.com/4''],
              ax_map = map_urls_loop 7 1 [''a.com/3'', ''a.com/4''] Map.empty\<rparr>, techcrunch_store)"
  by (rule ArticleExtractor_init_parsed)
     (simp_all add: techcrunch_conf_def techcrunch_store_def techcrunch_paths get_article_cnt_def)

lemma rev_dropWhile_split:
  "xs = rev (dropWhile P (rev xs)) @ rev (takeWhile P (rev xs))"
  by (metis rev_append rev_rev_ident takeWhile_dropWhile_id)

lemma py_strip_decomp:
  "\<exists>l r. s = l @ py_strip s @ r \<and> (\<forall>c\<in>set l. is_space c) \<and> (\<forall>c\<in>set r. is_space c)"
proof -
  let ?s1 = "dropWhile is_space s"
  let ?l = "takeWhile is_space s"
  let ?r = "rev (takeWhile is_space (rev ?s1))"
  have "?s1 = py_strip s @ ?r"
    unfolding py_strip_def by (rule rev_dropWhile_split)
  moreover have "s = ?l @ ?s1" by simp
  ultimately have "s = ?l @ py_strip s @ ?r" by metis
  moreover have "\<forall>c\<in>set ?l. is_space c" by (auto dest: set_takeWhileD)
  moreover have "\<forall>c\<in>set ?r. is_space c" by (auto dest: set_takeWhileD)
  ultimately show ?thesis by blast
qed

lemma py_strip_ends:
  assumes "py_strip s \<noteq> []"
  shows "\<not> is_space (hd (py_strip s)) \<and> \<not> is_space (last (py_strip s))"
proof -
  let ?s1 = "dropWhile is_space s"
  let ?d = "dropWhile is_space (rev ?s1)"
  have d: "?d \<noteq> []" using assms unfolding py_strip_def by (metis rev.simps(1))
  have s1: "?s1 \<noteq> []" using d by (metis dropWhile.simps(1) rev.simps(1))
  have "py_strip s = rev ?d" by (simp add: py_strip_def)
  then have "last (py_strip s) = hd ?d" using d by (simp add: last_rev)
  then have l: "\<not> is_space (last (py_strip s))" using hd_dropWhile[OF d] by simp
  have "?s1 = py_strip s @ rev (takeWhile is_space (rev ?s1))"
    unfolding py_strip_def by (rule rev_dropWhile_split)
  then have "hd ?s1 = hd (py_strip s)" using assms by (metis hd_append2)
  then have "\<not> is_space (hd (py_strip s))" using hd_dropWhile[OF s1] by simp
  then show ?thesis using l by simp
qed

section \<open>Reconcile: delta, replay, empty candidates\<close>

text \<open>
  C1. Delta correctness holds on the RSS path and fails on the XPath path. With
  cumulative \<open>{a.com/1, a.com/2}\<close> and candidates \<open>{a.com/2, a.com/3, a.com/4}\<close>,
  \<^verbatim>\<open>CustomScraper.process\<close> persists the delta \<open>{a.com/3, a.com/4}\<close> but leaves the
  cumulative file holding the old list, where \<^verbatim>\<open>RssHandler.update_file\<close> on the same
  input writes the union. Nothing else updates the cumulative file: after the commit
  (counter 7 to 9) a second run that discovers the same URLs finds the same delta again.
\<close>

theorem xpath_cumulative_not_updated:
  "url_files xpath_run_1 ''data_new/new_urls/techcrunch.json''
     = Some (Parsed [''a.com/3'', ''a.com/4''])
   \<and> url_files xpath_run_1 ''data_new/urls/techcrunch.json''
     = Some (Parsed [''a.com/1'', ''a.com/2''])
   \<and> set [''a.com/1'', ''a.com/2'']
       \<noteq> set [''a.com/2'', ''a.com/3'', ''a.com/4''] \<union> set [''a.com/1'', ''a.com/2'']
   \<and> url_files (final_store (update_file sorted_list_of_set [''a.com/2'', ''a.com/3'', ''a.com/4'']
                    (techcrunch_handler, techcrunch_store))) ''data_new/urls/techcrunch.json''
     = Some (Parsed [''a.com/1'', ''a.com/2'', ''a.com/3'', ''a.com/4''])
   \<and> persisted_cnt xpath_commit_1 ''sample_mapping.json'' ''techcrunch'' = Some 9
   \<and> url_files xpath_commit_1 ''data_new/urls/techcrunch.json''
     = Some (Parsed [''a.com/1'', ''a.com/2''])
   \<and> url_files xpath_run_2 ''data_new/new_urls/techcrunch.json''
     = Some (Parsed [''a.com/3'', ''a.com/4''])"
proof -
  have r1: "xpath_run_1 =
      \<lparr>url_files =
        [''data_new/urls/techcrunch.json'' \<mapsto> Parsed [''a.com/1'', ''a.com/2''],
         ''data_new/new_urls/techcrunch.json'' \<mapsto> Parsed [''a.com/3'', ''a.com/4'']],
       config_files = [''sample_mapping.json'' \<mapsto> Parsed [techcrunch_conf]],
       article_files = Map.empty\<rparr>"
  proof -
    have d: "sorted_list_of_set (set [''a.com/2'', ''a.com/3'', ''a.com/4'']
               - set [''a.com/1'', ''a.com/2'']) = [''a.com/3'', ''a.com/4'']"
      by code_simp
    have "process sorted_list_of_set [''a.com/2'', ''a.com/3'', ''a.com/4'']
            techcrunch_scraper techcrunch_store
          = Inr (write_urls (sc_new_url_path techcrunch_scraper) [''a.com/3'', ''a.com/4'']
                   techcrunch_store)"
      using process_delta[of techcrunch_store techcrunch_scraper "[''a.com/1'', ''a.com/2'']"
              sorted_list_of_set "[''a.com/2'', ''a.com/3'', ''a.com/4'']"] d
      by (simp add: techcrunch_store_def techcrunch_scraper_def)
    then show ?thesis
      by (simp add: xpath_run_1_def result_store_def write_urls_def techcrunch_scraper_def
            techcrunch_store_def)
  qed
  have u: "sorted_list_of_set (set [''a.com/3'', ''a.com/4''] \<union> set [''a.com/1'', ''a.com/2''])
             = [''a.com/1'', ''a.com/2'', ''a.com/3'', ''a.com/4'']"
    by code_simp
  have c1: "xpath_commit_1 =
      \<lparr>url_files =
        [''data_new/urls/techcrunch.json'' \<mapsto> Parsed [''a.com/1'', ''a.com/2''],
         ''data_new/new_urls/techcrunch.json''
           \<mapsto> Parsed [''a.com/1'', ''a.com/2'', ''a.com/3'', ''a.com/4'']],
       config_files =
         [''sample_mapping.json''
            \<mapsto> Parsed [techcrunch_conf\<lparr>c_article_cnt := Some (JInt 9)\<rparr>]],
       article_files = Map.empty\<rparr>"
    unfolding xpath_commit_1_def r1
    by (simp add: merge_files_def techcrunch_conf_def techcrunch_paths read_urls_def
          write_urls_def read_config_def write_config_def add_int_def get_article_cnt_def
          result_store_def Let_def u)
  have r2: "url_files xpath_run_2 ''data_new/new_urls/techcrunch.json''
              = Some (Parsed [''a.com/3'', ''a.com/4''])"
  proof -
    have d: "sorted_list_of_set (set [''a.com/2'', ''a.com/3'', ''a.com/4'']
               - set [''a.com/1'', ''a.com/2'']) = [''a.com/3'', ''a.com/4'']"
      by code_simp
    have o: "url_files xpath_commit_1 (sc_old_url_path techcrunch_scraper)
               = Some (Parsed [''a.com/1'', ''a.com/2''])"
      by (simp add: c1 techcrunch_scraper_def)
    show ?thesis
      unfolding xpath_run_2_def process_delta[OF o] d
      by (simp add: result_store_def write_urls_def techcrunch_scraper_def)
  qed
  have s: "url_files (final_store (update_file sorted_list_of_set [''a.com/2'', ''a.com/3'', ''a.com/4'']
                    (techcrunch_handler, techcrunch_store))) ''data_new/urls/techcrunch.json''
     = Some (Parsed [''a.com/1'', ''a.com/2'', ''a.com/3'', ''a.com/4''])"
  proof -
    have a: "sorted_list_of_set (set [''a.com/2'', ''a.com/3'', ''a.com/4'']
               \<union> set [''a.com/1'', ''a.com/2''])
             = [''a.com/1'', ''a.com/2'', ''a.com/3'', ''a.com/4'']"
      by code_simp
    have o: "url_files techcrunch_store (output_path techcrunch_handler)
               = Some (Parsed [''a.com/1'', ''a.com/2''])"
      by (simp add: techcrunch_store_def techcrunch_handler_def)
    show ?thesis
      unfolding update_file_nonempty[OF set_listing_sorted _ o, of "[''a.com/2'', ''a.com/3'', ''a.com/4'']", simplified] a
      by (simp add: final_store_def write_urls_def techcrunch_handler_def)
  qed
  have n: "set [''a.com/1'', ''a.com/2'']
       \<noteq> set [''a.com/2'', ''a.com/3'', ''a.com/4''] \<union> set [''a.com/1'', ''a.com/2'']"
    by (simp add: insert_eq_iff)
  have p: "persisted_cnt xpath_commit_1 ''sample_mapping.json'' ''techcrunch'' = Some 9"
    by (simp add: c1 persisted_cnt_def techcrunch_conf_def get_article_cnt_def)
  have r1n: "url_files xpath_run_1 ''data_new/new_urls/techcrunch.json''
               = Some (Parsed [''a.com/3'', ''a.com/4''])"
    by (simp add: r1)
  have r1o: "url_files xpath_run_1 ''data_new/urls/techcrunch.json''
               = Some (Parsed [''a.com/1'', ''a.com/2''])"
    by (simp add: r1)
  have c1o: "url_files xpath_commit_1 ''data_new/urls/techcrunch.json''
               = Some (Parsed [''a.com/1'', ''a.com/2''])"
    by (simp add: c1)
  show ?thesis
    by (intro conjI) (rule r1n r1o n s p c1o r2)+
qed

text \<open>
  C2. Replay of an RSS reconcile. Let the handler's cumulative file hold \<open>U\<close>. A first
  reconcile with candidates \<open>C\<close> returns and leaves a cumulative file whose set is
  \<open>U \<union> C\<close>; a second reconcile with the same candidates returns too, its handler's delta
  \<^verbatim>\<open>new_urls\<close> is empty, and the set of the cumulative file is unchanged. When \<open>C\<close> is
  non-empty (and the two files are different files) the persisted delta is \<^verbatim>\<open>[]\<close> as well.
\<close>

theorem reconcile_replay_idempotent:
  assumes "set_listing enum"
    and "RssHandler_init conf d fs = Inr (h, fs0)"
    and "url_files fs0 (output_path h) = Some (Parsed U)"
  shows "\<exists>h1 fs1 h2 fs2 A1 A2.
            reconcile_rss enum conf d urls fs = Inr (h1, fs1)
          \<and> url_files fs1 (output_path h) = Some (Parsed A1) \<and> set A1 = set U \<union> set urls
          \<and> reconcile_rss enum conf d urls fs1 = Inr (h2, fs2)
          \<and> new_urls h2 = []
          \<and> url_files fs2 (output_path h) = Some (Parsed A2) \<and> set A2 = set A1
          \<and> (urls \<noteq> [] \<and> output_path h \<noteq> new_url_path h
               \<longrightarrow> url_files fs2 (new_url_path h) = Some (Parsed []))"
proof (cases "urls = []")
  case True
  have 1: "reconcile_rss enum conf d urls fs = Inr (h, fs0)"
    using assms(2) True by (simp add: reconcile_rss_def update_file_def)
  have "RssHandler_init conf d fs0 = Inr (h, fs0)"
    using RssHandler_init_again[OF assms(2)] RssHandler_init_files[OF assms(2)] by blast
  then have 2: "reconcile_rss enum conf d urls fs0 = Inr (h, fs0)"
    using True by (simp add: reconcile_rss_def update_file_def)
  show ?thesis
    using 1 2 True assms(3) RssHandler_init_files(3)[OF assms(2)] by simp
next
  case False
  let ?D = "sorted_list_of_set (set urls - set U)"
  let ?A = "enum (set urls \<union> set U)"
  let ?h1 = "h\<lparr>new_urls := ?D\<rparr>"
  let ?fs1 = "write_urls (output_path h) ?A (write_urls (new_url_path h) ?D fs0)"
  have A: "set ?A = set urls \<union> set U"
    using assms(1) by (simp add: set_listingD)
  have 1: "reconcile_rss enum conf d urls fs = Inr (?h1, ?fs1)"
    using assms(2) update_file_nonempty[OF assms(1) False assms(3)]
    by (simp add: reconcile_rss_def)
  have out1: "url_files ?fs1 (output_path h) = Some (Parsed ?A)"
    by (simp add: write_urls_def)
  have new1: "url_files ?fs1 (new_url_path h) \<noteq> None"
    by (simp add: write_urls_def)
  have init1: "RssHandler_init conf d ?fs1 = Inr (h, ?fs1)"
    using RssHandler_init_again[OF assms(2)] out1 new1 by simp
  let ?A2 = "enum (set urls \<union> set ?A)"
  let ?fs2 = "write_urls (output_path h) ?A2 (write_urls (new_url_path h) [] ?fs1)"
  have D2: "sorted_list_of_set (set urls - set ?A) = []"
    using A by (simp add: Diff_eq_empty_iff)
  have 2: "reconcile_rss enum conf d urls ?fs1 = Inr (h\<lparr>new_urls := []\<rparr>, ?fs2)"
    using init1 update_file_nonempty[OF assms(1) False out1] D2
    by (simp add: reconcile_rss_def)
  have A2: "set ?A2 = set ?A"
    using assms(1) A by (auto simp: set_listingD)
  have out2: "url_files ?fs2 (output_path h) = Some (Parsed ?A2)"
    by (simp add: write_urls_def)
  have new2: "output_path h \<noteq> new_url_path h \<Longrightarrow> url_files ?fs2 (new_url_path h) = Some (Parsed [])"
    by (simp add: write_urls_def)
  show ?thesis
    using 1 2 out1 out2 A A2 new2 by (auto simp: Un_commute)
qed

theorem reconcile_replay_idempotent_witness:
  "set_listing sorted_list_of_set
   \<and> RssHandler_init techcrunch_conf ''data_new'' techcrunch_store
        = Inr (techcrunch_handler, techcrunch_store)
   \<and> url_files techcrunch_store (output_path techcrunch_handler)
        = Some (Parsed [''a.com/1'', ''a.com/2''])
   \<and> (\<exists>h1 fs1 h2 fs2 A1 A2.
            reconcile_rss sorted_list_of_set techcrunch_conf ''data_new'' [''a.com/3''] techcrunch_store
              = Inr (h1, fs1)
          \<and> url_files fs1 (output_path techcrunch_handler) = Some (Parsed A1)
          \<and> set A1 = set [''a.com/1'', ''a.com/2''] \<union> set [''a.com/3'']
          \<and> reconcile_rss sorted_list_of_set techcrunch_conf ''data_new'' [''a.com/3''] fs1
              = Inr (h2, fs2)
          \<and> new_urls h2 = []
          \<and> url_files fs2 (output_path techcrunch_handler) = Some (Parsed A2) \<and> set A2 = set A1
          \<and> ([''a.com/3''] \<noteq> [] \<and> output_path techcrunch_handler \<noteq> new_url_path techcrunch_handler
               \<longrightarrow> url_files fs2 (new_url_path techcrunch_handler) = Some (Parsed [])))"
proof -
  have h1: "set_listing sorted_list_of_set" by (rule set_listing_sorted)
  have h2: "RssHandler_init techcrunch_conf ''data_new'' techcrunch_store
              = Inr (techcrunch_handler, techcrunch_store)"
    by (rule techcrunch_handler_init)
  have h3: "url_files techcrunch_store (output_path techcrunch_handler)
              = Some (Parsed [''a.com/1'', ''a.com/2''])"
    by (simp add: techcrunch_store_def techcrunch_handler_def)
  note c = reconcile_replay_idempotent[OF h1 h2 h3, of "[''a.com/3'']"]
  show ?thesis
    by (intro conjI) (rule h1 h2 h3 c)+
qed



section \<open>Merge-and-commit\<close>

text \<open>
  C3. Commit monotonicity. For a source with an entry in the config list (counter \<open>k\<close>)
  and parsed or absent URL files, \<^verbatim>\<open>merge_files\<close> returns; the persisted counter is then
  \<open>k + n\<close>, where \<open>n\<close> is the length of the delta list at the start, so it never decreases;
  when \<open>n = 0\<close> the config files are unchanged; and in every case the delta file is
  rewritten to a listing of the union of the delta and the cumulative set.
\<close>

theorem commit_monotone:
  assumes "set_listing enum"
    and "c_id di = Some i"
    and "persisted_cnt fs mp i = Some k"
    and "url_files fs (new_urls_path d i) \<noteq> Some Malformed"
    and "url_files fs (urls_path d i) \<noteq> Some Malformed"
  shows "\<exists>fs'. merge_files enum di d mp fs = Inr fs'
           \<and> persisted_cnt fs' mp i = Some (k + int (length (stored_urls fs (new_urls_path d i))))
           \<and> k \<le> k + int (length (stored_urls fs (new_urls_path d i)))
           \<and> (length (stored_urls fs (new_urls_path d i)) = 0
                \<longrightarrow> config_files fs' = config_files fs)
           \<and> (\<exists>A. url_files fs' (new_urls_path d i) = Some (Parsed A)
                 \<and> set A = set (stored_urls fs (new_urls_path d i)) \<union> set (stored_urls fs (urls_path d i)))"
proof -
  let ?nus = "stored_urls fs (new_urls_path d i)"
  let ?olds = "stored_urls fs (urls_path d i)"
  let ?fs2 = "if url_files fs (urls_path d i) = None then write_urls (urls_path d i) [] fs else fs"
  let ?fs3 = "write_urls (new_urls_path d i) (enum (set ?nus \<union> set ?olds)) ?fs2"
  obtain es e where es: "config_files fs mp = Some (Parsed es)"
    and fnd: "find (\<lambda>e. c_id e = Some i) es = Some e"
    and cnt: "get_article_cnt e = JInt k"
    using assms(3)
    by (auto simp: persisted_cnt_def split: option.splits json.splits json_value.splits)
  have A: "set (enum (set ?nus \<union> set ?olds)) = set ?nus \<union> set ?olds"
    using assms(1) by (simp add: set_listingD)
  have cfg3: "config_files ?fs3 = config_files fs"
    by (simp add: write_urls_def)
  have new3: "url_files ?fs3 (new_urls_path d i) = Some (Parsed (enum (set ?nus \<union> set ?olds)))"
    by (simp add: write_urls_def)
  show ?thesis
  proof (cases "?nus = []")
    case True
    then have "merge_files enum di d mp fs = Inr ?fs3"
      using merge_files_result[OF assms(2,4,5), of enum mp] by (simp add: Let_def)
    moreover have "persisted_cnt ?fs3 mp i = Some k"
      using assms(3) cfg3 by (simp add: persisted_cnt_def)
    ultimately show ?thesis
      using True cfg3 new3 A by auto
  next
    case False
    obtain es' where es': "bump_article_cnt i (int (length ?nus)) es = Inr es'"
      and fnd': "find (\<lambda>e. c_id e = Some i) es'
                   = Some (e\<lparr>c_article_cnt := Some (JInt (k + int (length ?nus)))\<rparr>)"
      using bump_article_cnt_found[OF fnd cnt] by blast
    let ?fs4 = "write_config mp es' ?fs3"
    have "merge_files enum di d mp fs = Inr ?fs4"
      using merge_files_result[OF assms(2,4,5), of enum mp] False es es'
      by (simp add: Let_def read_config_def)
    moreover have "persisted_cnt ?fs4 mp i = Some (k + int (length ?nus))"
      using fnd' by (simp add: persisted_cnt_def write_config_def)
    moreover have "url_files ?fs4 (new_urls_path d i) = Some (Parsed (enum (set ?nus \<union> set ?olds)))"
      using new3 by (simp add: write_config_def)
    ultimately show ?thesis
      using False A by auto
  qed
qed

theorem commit_monotone_witness:
  "set_listing sorted_list_of_set
   \<and> c_id techcrunch_conf = Some ''techcrunch''
   \<and> persisted_cnt techcrunch_store ''sample_mapping.json'' ''techcrunch'' = Some 7
   \<and> url_files techcrunch_store (new_urls_path ''data_new'' ''techcrunch'') \<noteq> Some Malformed
   \<and> url_files techcrunch_store (urls_path ''data_new'' ''techcrunch'') \<noteq> Some Malformed
   \<and> (\<exists>fs'. merge_files sorted_list_of_set techcrunch_conf ''data_new'' ''sample_mapping.json''
               techcrunch_store = Inr fs'
          \<and> persisted_cnt fs' ''sample_mapping.json'' ''techcrunch''
              = Some (7 + int (length (stored_urls techcrunch_store
                                         (new_urls_path ''data_new'' ''techcrunch''))))
          \<and> 7 \<le> 7 + int (length (stored_urls techcrunch_store
                                    (new_urls_path ''data_new'' ''techcrunch'')))
          \<and> (length (stored_urls techcrunch_store (new_urls_path ''data_new'' ''techcrunch'')) = 0
                \<longrightarrow> config_files fs' = config_files techcrunch_store)
          \<and> (\<exists>A. url_files fs' (new_urls_path ''data_new'' ''techcrunch'') = Some (Parsed A)
                 \<and> set A = set (stored_urls techcrunch_store (new_urls_path ''data_new'' ''techcrunch''))
                           \<union> set (stored_urls techcrunch_store (urls_path ''data_new'' ''techcrunch''))))"
proof -
  have h1: "set_listing sorted_list_of_set" by (rule set_listing_sorted)
  have h2: "c_id techcrunch_conf = Some ''techcrunch''" by (simp add: techcrunch_conf_def)
  have h3: "persisted_cnt techcrunch_store ''sample_mapping.json'' ''techcrunch'' = Some 7"
    by (simp add: persisted_cnt_def techcrunch_store_def techcrunch_conf_def get_article_cnt_def)
  have h4: "url_files techcrunch_store (new_urls_path ''data_new'' ''techcrunch'') \<noteq> Some Malformed"
    by (simp add: techcrunch_paths techcrunch_store_def)
  have h5: "url_files techcrunch_store (urls_path ''data_new'' ''techcrunch'') \<noteq> Some Malformed"
    by (simp add: techcrunch_paths techcrunch_store_def)
  note c = commit_monotone[OF h1 h2 h3 h4 h5]
  show ?thesis
    by (intro conjI) (rule h1 h2 h3 h4 h5 c)+
qed

text \<open>
  C9 (as amended). Commit frame. Whether \<^verbatim>\<open>merge_files\<close> returns or raises, the cumulative
  file of the source is either left as it was or, when it did not exist, created holding
  \<^verbatim>\<open>[]\<close>, so the URL list it denotes is unchanged; of the URL files only the source's
  delta file and cumulative file can differ, of the config files only the one at
  \<^verbatim>\<open>map_path\<close>, and no article file. The same holds for \<^verbatim>\<open>CustomScraper.process\<close>, which
  touches no config file at all.
\<close>

theorem commit_frame:
  assumes "c_id di = Some i"
    and "CustomScraper_init config dir_path = Inr sc"
  shows "(let fs' = result_store (merge_files enum di d mp fs) in
            (url_files fs' (urls_path d i) = url_files fs (urls_path d i)
              \<or> url_files fs (urls_path d i) = None \<and> url_files fs' (urls_path d i) = Some (Parsed []))
          \<and> stored_urls fs' (urls_path d i) = stored_urls fs (urls_path d i)
          \<and> (\<forall>p. p \<noteq> new_urls_path d i \<and> p \<noteq> urls_path d i \<longrightarrow> url_files fs' p = url_files fs p)
          \<and> (\<forall>p. p \<noteq> mp \<longrightarrow> config_files fs' p = config_files fs p)
          \<and> article_files fs' = article_files fs)
       \<and> (let gs' = result_store (process enum fetched sc gs) in
            (url_files gs' (sc_old_url_path sc) = url_files gs (sc_old_url_path sc)
              \<or> url_files gs (sc_old_url_path sc) = None \<and> url_files gs' (sc_old_url_path sc) = Some (Parsed []))
          \<and> stored_urls gs' (sc_old_url_path sc) = stored_urls gs (sc_old_url_path sc)
          \<and> (\<forall>p. p \<noteq> sc_new_url_path sc \<and> p \<noteq> sc_old_url_path sc \<longrightarrow> url_files gs' p = url_files gs p)
          \<and> config_files gs' = config_files gs
          \<and> article_files gs' = article_files gs)"
proof
  have neq: "urls_path d i \<noteq> new_urls_path d i" by (rule urls_path_neq_new_urls_path)
  show "let fs' = result_store (merge_files enum di d mp fs) in
            (url_files fs' (urls_path d i) = url_files fs (urls_path d i)
              \<or> url_files fs (urls_path d i) = None \<and> url_files fs' (urls_path d i) = Some (Parsed []))
          \<and> stored_urls fs' (urls_path d i) = stored_urls fs (urls_path d i)
          \<and> (\<forall>p. p \<noteq> new_urls_path d i \<and> p \<noteq> urls_path d i \<longrightarrow> url_files fs' p = url_files fs p)
          \<and> (\<forall>p. p \<noteq> mp \<longrightarrow> config_files fs' p = config_files fs p)
          \<and> article_files fs' = article_files fs"
    using assms(1) neq
    by (auto simp: merge_files_def result_store_def read_urls_def write_urls_def stored_urls_def
          read_config_def write_config_def Let_def split: option.splits json.splits sum.splits)
next
  obtain j where sc: "sc_old_url_path sc = urls_path dir_path j" "sc_new_url_path sc = new_urls_path dir_path j"
    using assms(2) by (auto simp: CustomScraper_init_def split: option.splits)
  have neq: "sc_old_url_path sc \<noteq> sc_new_url_path sc"
    using sc urls_path_neq_new_urls_path by simp
  show "let gs' = result_store (process enum fetched sc gs) in
            (url_files gs' (sc_old_url_path sc) = url_files gs (sc_old_url_path sc)
              \<or> url_files gs (sc_old_url_path sc) = None \<and> url_files gs' (sc_old_url_path sc) = Some (Parsed []))
          \<and> stored_urls gs' (sc_old_url_path sc) = stored_urls gs (sc_old_url_path sc)
          \<and> (\<forall>p. p \<noteq> sc_new_url_path sc \<and> p \<noteq> sc_old_url_path sc \<longrightarrow> url_files gs' p = url_files gs p)
          \<and> config_files gs' = config_files gs
          \<and> article_files gs' = article_files gs"
    using neq
    by (auto simp: process_def result_store_def write_urls_def stored_urls_def Let_def
          split: option.splits json.splits)
qed

theorem commit_frame_witness:
  "c_id techcrunch_conf = Some ''techcrunch''
   \<and> CustomScraper_init techcrunch_conf ''data_new'' = Inr techcrunch_scraper
   \<and> stored_urls (result_store (merge_files sorted_list_of_set techcrunch_conf ''data_new''
                      ''sample_mapping.json'' techcrunch_store)) (urls_path ''data_new'' ''techcrunch'')
       = stored_urls techcrunch_store (urls_path ''data_new'' ''techcrunch'')"
proof -
  have h1: "c_id techcrunch_conf = Some ''techcrunch''" by (simp add: techcrunch_conf_def)
  have h2: "CustomScraper_init techcrunch_conf ''data_new'' = Inr techcrunch_scraper"
    by (rule techcrunch_scraper_init)
  note c = commit_frame[OF h1 h2, of sorted_list_of_set "''data_new''" "''sample_mapping.json''"
             techcrunch_store, THEN conjunct1, unfolded Let_def, THEN conjunct2, THEN conjunct1]
  show ?thesis
    by (intro conjI) (rule h1 h2 c)+
qed

text \<open>The claim as stated fails before the first run: the cumulative file does not exist,
  and both \<^verbatim>\<open>merge_files\<close> and \<^verbatim>\<open>process\<close> write it.\<close>

theorem commit_frame_counterexample:
  "url_files empty_store ''data_new/urls/techcrunch.json'' = None
   \<and> url_files (result_store (merge_files sorted_list_of_set techcrunch_conf ''data_new''
                   ''sample_mapping.json'' empty_store)) ''data_new/urls/techcrunch.json''
       = Some (Parsed [])
   \<and> url_files (result_store (process sorted_list_of_set [] techcrunch_scraper empty_store))
        ''data_new/urls/techcrunch.json'' = Some (Parsed [])"
  by (simp add: merge_files_def process_def result_store_def empty_store_def techcrunch_conf_def
        techcrunch_scraper_def techcrunch_paths read_urls_def write_urls_def Let_def)

section \<open>Sequential id allocation\<close>

text \<open>
  C4. Sequential index allocation. Let the source's config entry hold the counter \<open>k\<close>
  and its delta file a duplicate-free list of \<open>n\<close> URLs (every writer of the delta file
  lists a set). Then the allocator \<^verbatim>\<open>ArticleExtractor.__init__\<close> returns, with the store
  untouched; it has read the persisted list, maps the URL at position \<open>j\<close> of the list to
  \<open>k + 1 + j\<close> and no other URL to anything, and holds the counter \<open>k + n\<close>;
  \<^verbatim>\<open>process_result\<close> stores the article under the key \<^verbatim>\<open>{id}_{index}\<close>, the index
  zero-padded by \<^verbatim>\<open>zfill(4)\<close>, which for an index below 10000 is its four decimal digits.
  For \<^verbatim>\<open>techcrunch\<close>, with persisted counter 7 and persisted delta \<open>[a.com/3, a.com/4]\<close>,
  the indices are 8 and 9 and the keys \<open>techcrunch_0008\<close> and \<open>techcrunch_0009\<close>.
\<close>

theorem sequential_index_allocation:
  assumes "c_id conf = Some i"
    and "get_article_cnt conf = JInt k"
    and "url_files fs (new_urls_path d i) = Some (Parsed us)"
    and "distinct us"
    and "j < length us"
    and "r_url result = us ! j"
  shows "(\<exists>ax. ArticleExtractor_init today conf d fs = Inr (ax, fs)
            \<and> ax_new_urls ax = us
            \<and> ax_map ax (us ! j) = Some (k + 1 + int j)
            \<and> dom (ax_map ax) = set us
            \<and> ax_article_cnt ax = JInt (k + int (length us))
            \<and> article_files (process_result ax result fs)
                 (os_path_join (os_path_join d ''articles'') (fileid i (k + 1 + int j) @ ''.json''))
               = Some (Parsed \<lparr>a_url = Some (us ! j), a_html = Some (content_of result),
                               a_path = Some (fileid i (k + 1 + int j)),
                               a_title = Some [], a_date = Some today, a_summary = None,
                               a_keywords = None, a_tags = None, a_subtags = None\<rparr>))
       \<and> fileid i (k + 1 + int j) = i @ ''_'' @ zfill 4 (str_int (k + 1 + int j))
       \<and> (0 \<le> k + 1 + int j \<and> k + 1 + int j < 10000 \<longrightarrow>
            zfill 4 (str_int (k + 1 + int j))
              = [digit_char (nat (k + 1 + int j) div 1000), digit_char (nat (k + 1 + int j) div 100),
                 digit_char (nat (k + 1 + int j) div 10), digit_char (nat (k + 1 + int j))])
       \<and> persisted_cnt techcrunch_store ''sample_mapping.json'' ''techcrunch'' = Some 7
       \<and> stored_urls techcrunch_store (new_urls_path ''data_new'' ''techcrunch'')
           = [''a.com/3'', ''a.com/4'']
       \<and> ax_map (fst (projr (ArticleExtractor_init ''2025-01-01'' techcrunch_conf ''data_new''
                               techcrunch_store))) ''a.com/3'' = Some 8
       \<and> ax_map (fst (projr (ArticleExtractor_init ''2025-01-01'' techcrunch_conf ''data_new''
                               techcrunch_store))) ''a.com/4'' = Some 9
       \<and> fileid ''techcrunch'' 8 = ''techcrunch_0008''
       \<and> fileid ''techcrunch'' 9 = ''techcrunch_0009''"
proof (intro conjI)
  let ?ax = "\<lparr>ax_date = today, ax_id = i, ax_article_cnt = JInt (k + int (length us)),
              ax_new_url_path = new_urls_path d i, ax_article_dir = os_path_join d ''articles'',
              ax_new_urls = us, ax_map = map_urls_loop k 1 us Map.empty\<rparr>"
  have init: "ArticleExtractor_init today conf d fs = Inr (?ax, fs)"
    by (rule ArticleExtractor_init_parsed[OF assms(1,3,2)])
  have m: "ax_map ?ax (us ! j) = Some (k + 1 + int j)"
    using map_urls_loop_nth[OF assms(4,5), of k 1 Map.empty] by simp
  have dm: "dom (ax_map ?ax) = set us"
    by (simp add: map_urls_loop_dom)
  have w: "article_files (process_result ?ax result fs)
                 (os_path_join (os_path_join d ''articles'') (fileid i (k + 1 + int j) @ ''.json''))
               = Some (Parsed \<lparr>a_url = Some (us ! j), a_html = Some (content_of result),
                               a_path = Some (fileid i (k + 1 + int j)),
                               a_title = Some [], a_date = Some today, a_summary = None,
                               a_keywords = None, a_tags = None, a_subtags = None\<rparr>)"
    using m assms(6) by (simp add: process_result_def save_json_def write_article_def)
  show "\<exists>ax. ArticleExtractor_init today conf d fs = Inr (ax, fs)
            \<and> ax_new_urls ax = us
            \<and> ax_map ax (us ! j) = Some (k + 1 + int j)
            \<and> dom (ax_map ax) = set us
            \<and> ax_article_cnt ax = JInt (k + int (length us))
            \<and> article_files (process_result ax result fs)
                 (os_path_join (os_path_join d ''articles'') (fileid i (k + 1 + int j) @ ''.json''))
               = Some (Parsed \<lparr>a_url = Some (us ! j), a_html = Some (content_of result),
                               a_path = Some (fileid i (k + 1 + int j)),
                               a_title = Some [], a_date = Some today, a_summary = None,
                               a_keywords = None, a_tags = None, a_subtags = None\<rparr>)"
  proof (rule exI[of _ ?ax], intro conjI)
    show "ax_new_urls ?ax = us" by simp
    show "ax_article_cnt ?ax = JInt (k + int (length us))" by simp
  qed (rule init m dm w)+
  show "fileid i (k + 1 + int j) = i @ ''_'' @ zfill 4 (str_int (k + 1 + int j))"
    by (simp add: fileid_def)
  show "0 \<le> k + 1 + int j \<and> k + 1 + int j < 10000 \<longrightarrow>
            zfill 4 (str_int (k + 1 + int j))
              = [digit_char (nat (k + 1 + int j) div 1000), digit_char (nat (k + 1 + int j) div 100),
                 digit_char (nat (k + 1 + int j) div 10), digit_char (nat (k + 1 + int j))]"
    using zfill_4_digits[of "k + 1 + int j"] by blast
  show "persisted_cnt techcrunch_store ''sample_mapping.json'' ''techcrunch'' = Some 7"
    by (simp add: persisted_cnt_def techcrunch_store_def techcrunch_conf_def get_article_cnt_def)
  show "stored_urls techcrunch_store (new_urls_path ''data_new'' ''techcrunch'')
           = [''a.com/3'', ''a.com/4'']"
    by (simp add: stored_urls_def techcrunch_paths techcrunch_store_def)
  show "ax_map (fst (projr (ArticleExtractor_init ''2025-01-01'' techcrunch_conf ''data_new''
                               techcrunch_store))) ''a.com/3'' = Some 8"
    unfolding techcrunch_extractor_init by simp
  show "ax_map (fst (projr (ArticleExtractor_init ''2025-01-01'' techcrunch_conf ''data_new''
                               techcrunch_store))) ''a.com/4'' = Some 9"
    unfolding techcrunch_extractor_init by simp
  show "fileid ''techcrunch'' 8 = ''techcrunch_0008''" by code_simp
  show "fileid ''techcrunch'' 9 = ''techcrunch_0009''" by code_simp
qed

theorem sequential_index_allocation_witness:
  "c_id techcrunch_conf = Some ''techcrunch''
   \<and> get_article_cnt techcrunch_conf = JInt 7
   \<and> url_files techcrunch_store (new_urls_path ''data_new'' ''techcrunch'')
       = Some (Parsed [''a.com/3'', ''a.com/4''])
   \<and> distinct [''a.com/3'', ''a.com/4'']
   \<and> 1 < length [''a.com/3'', ''a.com/4'']
   \<and> r_url techcrunch_result = [''a.com/3'', ''a.com/4''] ! 1
   \<and> (\<exists>ax. ArticleExtractor_init ''2025-01-01'' techcrunch_conf ''data_new'' techcrunch_store
               = Inr (ax, techcrunch_store)
            \<and> ax_new_urls ax = [''a.com/3'', ''a.com/4'']
            \<and> ax_map ax ([''a.com/3'', ''a.com/4''] ! 1) = Some (7 + 1 + int 1)
            \<and> dom (ax_map ax) = set [''a.com/3'', ''a.com/4'']
            \<and> ax_article_cnt ax = JInt (7 + int (length [''a.com/3'', ''a.com/4'']))
            \<and> article_files (process_result ax techcrunch_result techcrunch_store)
                 (os_path_join (os_path_join ''data_new'' ''articles'')
                    (fileid ''techcrunch'' (7 + 1 + int 1) @ ''.json''))
               = Some (Parsed \<lparr>a_url = Some ([''a.com/3'', ''a.com/4''] ! 1),
                               a_html = Some (content_of techcrunch_result),
                               a_path = Some (fileid ''techcrunch'' (7 + 1 + int 1)),
                               a_title = Some [], a_date = Some ''2025-01-01'', a_summary = None,
                               a_keywords = None, a_tags = None, a_subtags = None\<rparr>))"
proof -
  have h1: "c_id techcrunch_conf = Some ''techcrunch''" by (simp add: techcrunch_conf_def)
  have h2: "get_article_cnt techcrunch_conf = JInt 7"
    by (simp add: get_article_cnt_def techcrunch_conf_def)
  have h3: "url_files techcrunch_store (new_urls_path ''data_new'' ''techcrunch'')
              = Some (Parsed [''a.com/3'', ''a.com/4''])"
    by (simp add: techcrunch_paths techcrunch_store_def)
  have h4: "distinct [''a.com/3'', ''a.com/4'']" by simp
  have h5: "1 < length [''a.com/3'', ''a.com/4'']" by simp
  have h6: "r_url techcrunch_result = [''a.com/3'', ''a.com/4''] ! 1"
    by (simp add: techcrunch_result_def)
  note c = sequential_index_allocation[OF h1 h2 h3 h4 h5 h6, of "''2025-01-01''", THEN conjunct1]
  show ?thesis
    by (intro conjI) (rule h1 h2 h3 h4 h5 h6 c)+
qed




section \<open>Summarize stage\<close>

text \<open>
  C6. Summarize skip idempotence. On a record file that holds a non-empty summary,
  \<^verbatim>\<open>process_article\<close> returns with the store and the list of prompts sent to the language
  model both unchanged: no call is made and nothing is written.
\<close>

theorem summarize_skip_idempotent:
  assumes "article_files fs filename = Some (Parsed data)"
    and "a_summary data = Some s"
    and "s \<noteq> []"
  shows "process_article invoke loads sm filename (fs, sent) = Inr (fs, sent)"
  using assms
  by (simp add: process_article_def Let_def)

theorem summarize_skip_idempotent_witness:
  "article_files article_store ''data_new/articles/techcrunch_0008.json''
     = Some (Parsed summarised_article)
   \<and> a_summary summarised_article = Some ''A short summary''
   \<and> ''A short summary'' \<noteq> []
   \<and> process_article unfenced_llm no_json techcrunch_summariser
        ''data_new/articles/techcrunch_0008.json'' (article_store, [])
       = Inr (article_store, [])"
proof -
  have h1: "article_files article_store ''data_new/articles/techcrunch_0008.json''
              = Some (Parsed summarised_article)"
    by (simp add: article_store_def)
  have h2: "a_summary summarised_article = Some ''A short summary''"
    by (simp add: summarised_article_def)
  have h3: "''A short summary'' \<noteq> []" by simp
  note c = summarize_skip_idempotent[OF h1 h2 h3, of unfenced_llm no_json techcrunch_summariser "[]"]
  show ?thesis
    by (intro conjI) (rule h1 h2 h3 c)+
qed

text \<open>
  C10. Fence extraction. When the answer is \<open>a @ fence @ b @ fence @ c\<close> with the two
  fences the first occurrence in the answer and the first occurrence after it,
  \<^verbatim>\<open>extract_between_backticks\<close> returns \<open>b\<close> without its surrounding whitespace: \<open>b\<close> is
  the result between a run of whitespace on the left and one on the right, and the
  result, when not empty, neither starts nor ends with whitespace. When the answer has
  no two fences it returns the empty string. \<^verbatim>\<open>llm_call\<close> parses the block without its
  first four characters when the block starts with \<open>j\<close>, the whole block when it starts
  otherwise, and raises \<^verbatim>\<open>IndexError\<close> on an empty block; \<^verbatim>\<open>process_article\<close> catches
  that: the model was called once and the store is unchanged. On an answer with a
  \<open>json\<close> tag, newlines, a tab and a space around the block, the block comes out
  stripped, and without its first four characters it is the JSON text; each of the
  twelve whitespace characters below 256 is stripped.
\<close>

theorem fence_extraction:
  "(t = a @ ''```'' @ b @ ''```'' @ c
      \<and> (\<forall>k<length a. take 3 (drop k t) \<noteq> ''```'')
      \<and> (\<forall>k<length b. take 3 (drop k (b @ ''```'' @ c)) \<noteq> ''```'')
      \<longrightarrow> extract_between_backticks t = py_strip b
          \<and> (\<exists>l r. b = l @ extract_between_backticks t @ r
                 \<and> (\<forall>x\<in>set l. is_space x) \<and> (\<forall>x\<in>set r. is_space x))
          \<and> (extract_between_backticks t \<noteq> []
                \<longrightarrow> \<not> is_space (hd (extract_between_backticks t))
                  \<and> \<not> is_space (last (extract_between_backticks t))))
   \<and> ((\<nexists>a b c. t = a @ ''```'' @ b @ ''```'' @ c) \<longrightarrow> extract_between_backticks t = [])
   \<and> (invoke (generate_summary_message sm article_text) = Inr resp \<longrightarrow>
        (extract_between_backticks resp = []
           \<longrightarrow> llm_call invoke loads sm article_text = Inl IndexError)
      \<and> (\<forall>cs. extract_between_backticks resp = CHR ''j'' # cs
           \<longrightarrow> llm_call invoke loads sm article_text = loads (drop 4 (CHR ''j'' # cs)))
      \<and> (\<forall>c0 cs. extract_between_backticks resp = c0 # cs \<and> c0 \<noteq> CHR ''j''
           \<longrightarrow> llm_call invoke loads sm article_text = loads (c0 # cs)))
   \<and> (article_files fs filename = Some (Parsed data)
        \<and> a_html data = Some html \<and> py_strip html \<noteq> []
        \<and> (a_summary data = None \<or> a_summary data = Some [])
        \<and> invoke (generate_summary_message sm html) = Inr resp'
        \<and> extract_between_backticks resp' = []
      \<longrightarrow> process_article invoke loads sm filename (fs, sent)
            = Inr (fs, sent @ [generate_summary_message sm html]))
   \<and> extract_between_backticks
        (''Sure: ```json'' @ [CHR 0x0A] @ ''{} '' @ [CHR 0x09, CHR 0x0A] @ ''``` done'')
       = ''json'' @ [CHR 0x0A] @ ''{}''
   \<and> drop 4 (extract_between_backticks
        (''Sure: ```json'' @ [CHR 0x0A] @ ''{} '' @ [CHR 0x09, CHR 0x0A] @ ''``` done''))
       = [CHR 0x0A] @ ''{}''
   \<and> py_strip ([CHR 0x09, CHR 0x0A, CHR 0x0B, CHR 0x0C, CHR 0x0D, CHR 0x1C, CHR 0x1D, CHR 0x1E, CHR 0x1F,
                 CHR 0x20, CHR 0x85, CHR 0xA0] @ ''j j'' @ [CHR 0x0D, CHR 0x09]) = ''j j''"
proof (intro conjI impI allI)
  assume h: "t = a @ ''```'' @ b @ ''```'' @ c
      \<and> (\<forall>k<length a. take 3 (drop k t) \<noteq> ''```'')
      \<and> (\<forall>k<length b. take 3 (drop k (b @ ''```'' @ c)) \<noteq> ''```'')"
  then show e: "extract_between_backticks t = py_strip b"
    using extract_between_backticks_fenced[of t a b c] by blast
  show "\<exists>l r. b = l @ extract_between_backticks t @ r
                 \<and> (\<forall>x\<in>set l. is_space x) \<and> (\<forall>x\<in>set r. is_space x)"
    unfolding e by (rule py_strip_decomp)
  assume "extract_between_backticks t \<noteq> []"
  then have ne: "py_strip b \<noteq> []" unfolding e .
  show "\<not> is_space (hd (extract_between_backticks t))"
    unfolding e using py_strip_ends[OF ne] by simp
  show "\<not> is_space (last (extract_between_backticks t))"
    unfolding e using py_strip_ends[OF ne] by simp
next
  assume "\<nexists>a b c. t = a @ ''```'' @ b @ ''```'' @ c"
  then show "extract_between_backticks t = []"
    by (rule extract_between_backticks_unfenced)
next
  assume "invoke (generate_summary_message sm article_text) = Inr resp"
    and "extract_between_backticks resp = []"
  then show "llm_call invoke loads sm article_text = Inl IndexError"
    by (simp add: llm_call_def)
next
  fix cs
  assume "invoke (generate_summary_message sm article_text) = Inr resp"
    and "extract_between_backticks resp = CHR ''j'' # cs"
  then show "llm_call invoke loads sm article_text = loads (drop 4 (CHR ''j'' # cs))"
    by (simp add: llm_call_def)
next
  fix c0 cs
  assume "invoke (generate_summary_message sm article_text) = Inr resp"
    and "extract_between_backticks resp = c0 # cs \<and> c0 \<noteq> CHR ''j''"
  then show "llm_call invoke loads sm article_text = loads (c0 # cs)"
    by (simp add: llm_call_def)
next
  assume h: "article_files fs filename = Some (Parsed data)
        \<and> a_html data = Some html \<and> py_strip html \<noteq> []
        \<and> (a_summary data = None \<or> a_summary data = Some [])
        \<and> invoke (generate_summary_message sm html) = Inr resp'
        \<and> extract_between_backticks resp' = []"
  then have "llm_call invoke loads sm html = Inl IndexError"
    by (simp add: llm_call_def)
  moreover have "(case a_summary data of None \<Rightarrow> [] | Some x \<Rightarrow> x) = []"
    using h by auto
  ultimately show "process_article invoke loads sm filename (fs, sent)
            = Inr (fs, sent @ [generate_summary_message sm html])"
    using h by (simp add: process_article_def Let_def)
next
  show "extract_between_backticks
        (''Sure: ```json'' @ [CHR 0x0A] @ ''{} '' @ [CHR 0x09, CHR 0x0A] @ ''``` done'')
       = ''json'' @ [CHR 0x0A] @ ''{}''"
    by code_simp
next
  show "drop 4 (extract_between_backticks
        (''Sure: ```json'' @ [CHR 0x0A] @ ''{} '' @ [CHR 0x09, CHR 0x0A] @ ''``` done''))
       = [CHR 0x0A] @ ''{}''"
    by code_simp
next
  show "py_strip ([CHR 0x09, CHR 0x0A, CHR 0x0B, CHR 0x0C, CHR 0x0D, CHR 0x1C, CHR 0x1D, CHR 0x1E, CHR 0x1F,
                 CHR 0x20, CHR 0x85, CHR 0xA0] @ ''j j'' @ [CHR 0x0D, CHR 0x09]) = ''j j''"
    by code_simp
qed

theorem fence_extraction_witness:
  "''``` j ```'' = [] @ ''```'' @ '' j '' @ ''```'' @ []
   \<and> extract_between_backticks ''``` j ```'' = py_strip '' j ''
   \<and> py_strip '' j '' = ''j''
   \<and> article_files article_store ''data_new/articles/techcrunch_0009.json''
       = Some (Parsed fetched_article)
   \<and> a_html fetched_article = Some ''Body of the fourth article''
   \<and> py_strip ''Body of the fourth article'' \<noteq> []
   \<and> (a_summary fetched_article = None \<or> a_summary fetched_article = Some [])
   \<and> unfenced_llm (generate_summary_message techcrunch_summariser ''Body of the fourth article'')
       = Inr ''Sorry, no JSON.''
   \<and> extract_between_backticks ''Sorry, no JSON.'' = []
   \<and> process_article unfenced_llm no_json techcrunch_summariser
        ''data_new/articles/techcrunch_0009.json'' (article_store, [])
       = Inr (article_store,
              [] @ [generate_summary_message techcrunch_summariser ''Body of the fourth article''])"
proof -
  have h1: "''``` j ```'' = [] @ ''```'' @ '' j '' @ ''```'' @ []" by simp
  have h2: "\<forall>k<length ([]::string). take 3 (drop k ''``` j ```'') \<noteq> ''```''" by simp
  have h3: "\<forall>k<length '' j ''. take 3 (drop k ('' j '' @ ''```'' @ [])) \<noteq> ''```''"
    by (simp add: less_Suc_eq)
  have h4: "article_files article_store ''data_new/articles/techcrunch_0009.json''
              = Some (Parsed fetched_article)"
    by (simp add: article_store_def)
  have h5: "a_html fetched_article = Some ''Body of the fourth article''"
    by (simp add: fetched_article_def)
  have h6: "py_strip ''Body of the fourth article'' \<noteq> []" by code_simp
  have h7: "a_summary fetched_article = None \<or> a_summary fetched_article = Some []"
    by (simp add: fetched_article_def)
  have h8: "unfenced_llm (generate_summary_message techcrunch_summariser ''Body of the fourth article'')
              = Inr ''Sorry, no JSON.''"
    by (simp add: unfenced_llm_def)
  have h9: "extract_between_backticks ''Sorry, no JSON.'' = []" by code_simp
  have s: "py_strip '' j '' = ''j''" by code_simp
  note c = fence_extraction[where t = "''``` j ```''" and a = "[]" and b = "'' j ''" and c = "[]"
             and fs = article_store and filename = "''data_new/articles/techcrunch_0009.json''"
             and data = fetched_article and html = "''Body of the fourth article''"
             and invoke = unfenced_llm and sm = techcrunch_summariser
             and resp' = "''Sorry, no JSON.''" and loads = no_json and sent = "[]"]
  have c1: "extract_between_backticks ''``` j ```'' = py_strip '' j ''"
    by (rule c[THEN conjunct1, THEN mp, THEN conjunct1]) (intro conjI h1 h2 h3)
  have c4: "process_article unfenced_llm no_json techcrunch_summariser
        ''data_new/articles/techcrunch_0009.json'' (article_store, [])
       = Inr (article_store,
              [] @ [generate_summary_message techcrunch_summariser ''Body of the fourth article''])"
    by (rule c[THEN conjunct2, THEN conjunct2, THEN conjunct2, THEN conjunct1, THEN mp])
       (intro conjI h4 h5 h6 h7 h8 h9)
  show ?thesis
    by (intro conjI) (rule h1 h4 h5 h6 h7 h8 h9 c1 c4 s)+
qed

section \<open>Relational deduplication\<close>

text \<open>
  C8. Relational deduplication. On a table whose ids are distinct (\<open>id\<close> is the primary
  key), after \<^verbatim>\<open>delete_duplicates\<close> no two rows share their \<open>(pos, html)\<close> pair; a row
  survives exactly when its id is the lowest among the rows with its pair, so every pair
  keeps a row; a row whose pair is unique is untouched; and no row is added.
\<close>

theorem relational_dedup:
  assumes "distinct (map row_id rows)"
  shows "distinct (map group_key (delete_duplicates rows))
       \<and> (\<forall>r \<in> set rows. r \<in> set (delete_duplicates rows)
             \<longleftrightarrow> (\<forall>q \<in> set rows. group_key q = group_key r \<longrightarrow> row_id r \<le> row_id q))
       \<and> (\<forall>r \<in> set rows. \<exists>q \<in> set (delete_duplicates rows). group_key q = group_key r)
       \<and> (\<forall>r \<in> set rows. (\<forall>q \<in> set rows. group_key q = group_key r \<longrightarrow> q = r)
             \<longrightarrow> r \<in> set (delete_duplicates rows))
       \<and> set (delete_duplicates rows) \<subseteq> set rows"
proof (intro conjI ballI impI)
  have sub: "set (delete_duplicates rows) \<subseteq> set rows"
    by (auto simp: delete_duplicates_def)
  show "set (delete_duplicates rows) \<subseteq> set rows" by (rule sub)
  have d: "distinct (delete_duplicates rows)"
    using assms by (simp add: delete_duplicates_def distinct_map)
  have "inj_on group_key (set (delete_duplicates rows))"
  proof (rule inj_onI)
    fix x y
    assume x: "x \<in> set (delete_duplicates rows)" and y: "y \<in> set (delete_duplicates rows)"
      and k: "group_key x = group_key y"
    have xr: "x \<in> set rows" and yr: "y \<in> set rows" using x y sub by auto
    have "row_id x \<le> row_id y"
      using delete_duplicates_iff[OF assms xr] x yr k by auto
    moreover have "row_id y \<le> row_id x"
      using delete_duplicates_iff[OF assms yr] y xr k by auto
    ultimately have "row_id x = row_id y" by simp
    then show "x = y" using assms xr yr by (meson distinct_map inj_onD)
  qed
  then show "distinct (map group_key (delete_duplicates rows))"
    using d by (simp add: distinct_map)
next
  fix r assume "r \<in> set rows"
  then show "r \<in> set (delete_duplicates rows)
             \<longleftrightarrow> (\<forall>q \<in> set rows. group_key q = group_key r \<longrightarrow> row_id r \<le> row_id q)"
    by (rule delete_duplicates_iff[OF assms])
next
  fix r assume r: "r \<in> set rows"
  obtain q where q: "q \<in> set rows" "group_key q = group_key r"
    "row_id q = Min (row_id ` {q \<in> set rows. group_key q = group_key r})"
    using group_min_in[OF r] by blast
  have "\<forall>p \<in> set rows. group_key p = group_key q \<longrightarrow> row_id q \<le> row_id p"
  proof (intro ballI impI)
    fix p assume "p \<in> set rows" "group_key p = group_key q"
    then have "row_id p \<in> row_id ` {q \<in> set rows. group_key q = group_key r}"
      using q(2) by auto
    then show "row_id q \<le> row_id p" unfolding q(3) by (intro Min_le) auto
  qed
  then have "q \<in> set (delete_duplicates rows)"
    using delete_duplicates_iff[OF assms q(1)] by simp
  then show "\<exists>q \<in> set (delete_duplicates rows). group_key q = group_key r"
    using q(2) by blast
next
  fix r assume r: "r \<in> set rows" and u: "\<forall>q \<in> set rows. group_key q = group_key r \<longrightarrow> q = r"
  then have "\<forall>q \<in> set rows. group_key q = group_key r \<longrightarrow> row_id r \<le> row_id q" by auto
  then show "r \<in> set (delete_duplicates rows)"
    using delete_duplicates_iff[OF assms r] by simp
qed

theorem relational_dedup_witness:
  "distinct (map row_id example_articles)
   \<and> distinct (map group_key (delete_duplicates example_articles))
   \<and> delete_duplicates example_articles
       = [\<lparr>row_id = 1, row_html = Some ''a.com/3'', row_pos = ''techcrunch_0008''\<rparr>,
          \<lparr>row_id = 3, row_html = Some ''a.com/4'', row_pos = ''techcrunch_0009''\<rparr>,
          \<lparr>row_id = 4, row_html = None, row_pos = ''techcrunch_0009''\<rparr>]"
proof -
  have h1: "distinct (map row_id example_articles)"
    by (simp add: example_articles_def)
  note c = relational_dedup[OF h1, THEN conjunct1]
  have e: "delete_duplicates example_articles
       = [\<lparr>row_id = 1, row_html = Some ''a.com/3'', row_pos = ''techcrunch_0008''\<rparr>,
          \<lparr>row_id = 3, row_html = Some ''a.com/4'', row_pos = ''techcrunch_0009''\<rparr>,
          \<lparr>row_id = 4, row_html = None, row_pos = ''techcrunch_0009''\<rparr>]"
    by code_simp
  show ?thesis
    by (intro conjI) (rule h1 c e)+
qed

end
